theory Spec2Isabelle
  imports Main "HOL-Library.Log_Nat"
begin

section \<open>Errors\<close>

text \<open>
  The Python exceptions the modelled code can raise. An uncaught exception ends the
  run, so a raising call is the value \<open>Inl e\<close> and carries no state.
\<close>

datatype error = ZeroDivisionError | OverflowError | AttributeError

section \<open>location.py\<close>

record location =
  row :: int
  column :: int

text \<open>\<open>Location.__eq__\<close>: both coordinates agree.\<close>

definition location_eq :: "location \<Rightarrow> location \<Rightarrow> bool" where
  "location_eq a b = (if row a = row b \<and> column a = column b then True else False)"

definition manhattan_distance :: "location \<Rightarrow> location \<Rightarrow> int" where
  "manhattan_distance origin destination =
     \<bar>row origin - row destination\<bar> + \<bar>column origin - column destination\<bar>"

section \<open>Python's \<open>round(a / b)\<close> on integers\<close>

text \<open>
  \<open>a / b\<close> on two Python integers is true division: the binary64 number nearest to
  the exact quotient, ties to the even significand, \<open>ZeroDivisionError\<close> for
  \<open>b = 0\<close> and \<open>OverflowError\<close> when the rounded quotient reaches \<open>2 ^ 1024\<close>.
  \<open>round\<close> of a float with no second argument is the nearest integer of that float,
  ties to the even integer, as an exact integer.

  \<open>round_half_even n m\<close> is the integer nearest to \<open>n / m\<close> for \<open>0 < m\<close>, ties to
  even. \<open>floor_log2 a b\<close> is the binary exponent of \<open>a / b\<close> for positive \<open>a\<close>,
  \<open>b\<close>: the \<open>e\<close> with \<open>2 ^ e \<le> a / b < 2 ^ (e + 1)\<close>. A binary64 number with
  exponent \<open>e\<close> is a multiple of \<open>2 ^ (e - 52)\<close>, and of \<open>2 ^ - 1074\<close> at least
  (the subnormal range).
\<close>

definition round_half_even :: "int \<Rightarrow> int \<Rightarrow> int" where
  "round_half_even n m =
     (let q = n div m; r = n mod m
      in if 2 * r < m then q
         else if m < 2 * r then q + 1
         else if even q then q else q + 1)"

definition floor_log2 :: "int \<Rightarrow> int \<Rightarrow> int" where
  "floor_log2 a b =
     (let k = bitlen a - bitlen b
      in if (if 0 \<le> k then b * 2 ^ nat k \<le> a else b \<le> a * 2 ^ nat (- k))
         then k else k - 1)"

text \<open>
  \<open>round_true_div_pos a b\<close> is \<open>round(a / b)\<close> for positive \<open>a\<close> and \<open>b\<close>:
  \<open>p\<close> is the exponent of the unit in the last place of the float, \<open>m\<close> its
  integer significand, so the float is \<open>m * 2 ^ p\<close>.
\<close>

definition round_true_div_pos :: "int \<Rightarrow> int \<Rightarrow> error + int" where
  "round_true_div_pos a b =
     (let p = max (floor_log2 a b - 52) (- 1074);
          m = (if 0 \<le> p then round_half_even a (b * 2 ^ nat p)
               else round_half_even (a * 2 ^ nat (- p)) b)
      in if 0 \<le> p then
           (if 2 ^ 1024 \<le> m * 2 ^ nat p then Inl OverflowError
            else Inr (m * 2 ^ nat p))
         else Inr (round_half_even m (2 ^ nat (- p))))"

text \<open>Both roundings are symmetric in the sign, and \<open>round(0.0) = round(-0.0) = 0\<close>.\<close>

definition round_true_div :: "int \<Rightarrow> int \<Rightarrow> error + int" where
  "round_true_div a b =
     (if b = 0 then Inl ZeroDivisionError
      else if a = 0 then Inr 0
      else (case round_true_div_pos \<bar>a\<bar> \<bar>b\<bar> of
              Inl e \<Rightarrow> Inl e
            | Inr n \<Rightarrow> Inr (if (a < 0) = (b < 0) then n else - n)))"

section \<open>rider.py\<close>

datatype status = WAITING | CANCELLED | SATISFIED

record rider =
  rider_id :: string
  origin :: location
  rider_destination :: location
  patience :: int
  status :: status

text \<open>\<open>Rider.__init__\<close>.\<close>

definition Rider :: "string \<Rightarrow> location \<Rightarrow> location \<Rightarrow> int \<Rightarrow> rider" where
  "Rider i orig dest pat =
     \<lparr>rider_id = i, origin = orig, rider_destination = dest, patience = pat,
      status = WAITING\<rparr>"

section \<open>driver.py\<close>

text \<open>
  \<open>destination\<close> is \<open>None\<close> or a location. \<open>location\<close> is a location after
  construction, but \<open>end_drive\<close> and \<open>end_ride\<close> copy \<open>destination\<close> into it
  unchecked, so it is optional too.
\<close>

record driver =
  driver_id :: string
  location :: "location option"
  speed :: int
  is_idle :: bool
  destination :: "location option"

text \<open>\<open>Driver.__init__\<close>.\<close>

definition Driver :: "string \<Rightarrow> location \<Rightarrow> int \<Rightarrow> driver" where
  "Driver identifier loc spd =
     \<lparr>driver_id = identifier, location = Some loc, speed = spd, is_idle = True,
      destination = None\<rparr>"

text \<open>
  \<open>==\<close> on two attribute values that are each \<open>None\<close> or a location.
  \<open>Location.__eq__\<close> reads \<open>other.row\<close>, which raises on \<open>None\<close>; with \<open>None\<close>
  on the left Python falls back to the reflected \<open>Location.__eq__\<close>, which raises
  the same way.
\<close>

fun opt_location_eq :: "location option \<Rightarrow> location option \<Rightarrow> error + bool" where
  "opt_location_eq None None = Inr True"
| "opt_location_eq (Some a) (Some b) = Inr (location_eq a b)"
| "opt_location_eq (Some a) None = Inl AttributeError"
| "opt_location_eq None (Some b) = Inl AttributeError"

text \<open>\<open>Driver.__eq__\<close>: a short-circuit conjunction of four comparisons.\<close>

definition driver_eq :: "driver \<Rightarrow> driver \<Rightarrow> error + bool" where
  "driver_eq self other =
     (if driver_id self \<noteq> driver_id other then Inr False
      else (case opt_location_eq (location self) (location other) of
              Inl e \<Rightarrow> Inl e
            | Inr False \<Rightarrow> Inr False
            | Inr True \<Rightarrow>
                (case opt_location_eq (destination self) (destination other) of
                   Inl e \<Rightarrow> Inl e
                 | Inr False \<Rightarrow> Inr False
                 | Inr True \<Rightarrow> Inr (speed self = speed other))))"

text \<open>
  \<open>Driver.get_travel_time\<close>. \<open>manhattan_distance\<close> reads \<open>origin.row\<close>, which
  raises when the driver's location is \<open>None\<close>.
\<close>

definition get_travel_time :: "driver \<Rightarrow> location \<Rightarrow> error + int" where
  "get_travel_time self dest =
     (case location self of
        None \<Rightarrow> Inl AttributeError
      | Some loc \<Rightarrow> round_true_div (manhattan_distance loc dest) (speed self))"

text \<open>
  \<open>Driver.start_drive\<close>: returns the travel time and the updated driver. The flag is
  cleared before the travel time is computed and the destination set after it.
\<close>

definition start_drive :: "driver \<Rightarrow> location \<Rightarrow> error + (int \<times> driver)" where
  "start_drive self loc =
     (let self1 = self\<lparr>is_idle := False\<rparr>
      in case get_travel_time self1 loc of
           Inl e \<Rightarrow> Inl e
         | Inr travel_time \<Rightarrow> Inr (travel_time, self1\<lparr>destination := Some loc\<rparr>))"

text \<open>\<open>Driver.end_drive\<close>: no check of the documented precondition.\<close>

definition end_drive :: "driver \<Rightarrow> driver" where
  "end_drive self =
     self\<lparr>location := destination self, destination := None, is_idle := True\<rparr>"

text \<open>\<open>Driver.start_ride\<close>, given the rider's record.\<close>

definition start_ride :: "driver \<Rightarrow> rider \<Rightarrow> error + (int \<times> driver)" where
  "start_ride self r =
     (let self1 = self\<lparr>destination := Some (rider_destination r), is_idle := False\<rparr>
      in case get_travel_time self1 (rider_destination r) of
           Inl e \<Rightarrow> Inl e
         | Inr travel_time \<Rightarrow> Inr (travel_time, self1))"

text \<open>\<open>Driver.end_ride\<close>.\<close>

definition end_ride :: "driver \<Rightarrow> driver" where
  "end_ride self =
     self\<lparr>location := destination self, destination := None, is_idle := True\<rparr>"

section \<open>The object store, the dispatcher and the monitor\<close>

text \<open>
  Riders and drivers are objects shared by reference between the events, the
  dispatcher's lists and each other, so the lists hold references (natural numbers) and
  the records live in a store. The dispatcher's two lists and the monitor are part of
  the same state, which every operation takes and returns.
\<close>

type_synonym rider_ref = nat
type_synonym driver_ref = nat

datatype category = RIDER | DRIVER

datatype action = REQUEST | CANCEL | PICKUP | DROPOFF

type_synonym notification = "int \<times> category \<times> action \<times> string \<times> location option"

record state =
  riders :: "rider_ref \<Rightarrow> rider"
  drivers :: "driver_ref \<Rightarrow> driver"
  waiting_list :: "rider_ref list"
  driver_registry :: "driver_ref list"
  monitor :: "notification list"

text \<open>
  Modelled from the spec: the module \<open>monitor\<close> (class \<open>Monitor\<close> and the constants
  \<open>RIDER\<close>, \<open>DRIVER\<close>, \<open>REQUEST\<close>, \<open>CANCEL\<close>, \<open>PICKUP\<close>, \<open>DROPOFF\<close>) is
  missing. The spec describes it as an opaque sink that receives each notification
  (timestamp, actor kind, action, identity, position); \<open>notify\<close> records it.
\<close>

definition notify :: "state \<Rightarrow> notification \<Rightarrow> state" where
  "notify s n = s\<lparr>monitor := monitor s @ [n]\<rparr>"

text \<open>\<open>Dispatcher.__init__\<close>: both lists empty.\<close>

definition Dispatcher :: "state \<Rightarrow> state" where
  "Dispatcher s = s\<lparr>waiting_list := [], driver_registry := []\<rparr>"

section \<open>dispatcher.py\<close>

text \<open>
  The loop of \<open>request_driver\<close> over the registry, with the loop variables
  \<open>fastest_driver\<close> and \<open>fastest_time\<close> as the accumulator.
\<close>

fun scan_drivers ::
  "(driver_ref \<Rightarrow> driver) \<Rightarrow> location \<Rightarrow> driver_ref list \<Rightarrow> driver_ref option \<times> int
   \<Rightarrow> error + (driver_ref option \<times> int)" where
  "scan_drivers drv orig [] acc = Inr acc"
| "scan_drivers drv orig (d # ds) (fastest_driver, fastest_time) =
     (if is_idle (drv d) then
        (case fastest_driver of
           None \<Rightarrow>
             (case get_travel_time (drv d) orig of
                Inl e \<Rightarrow> Inl e
              | Inr t \<Rightarrow> scan_drivers drv orig ds (Some d, t))
         | Some f \<Rightarrow>
             (case get_travel_time (drv d) orig of
                Inl e \<Rightarrow> Inl e
              | Inr travel_time \<Rightarrow>
                  if travel_time < fastest_time
                  then scan_drivers drv orig ds (Some d, travel_time)
                  else scan_drivers drv orig ds (Some f, fastest_time)))
      else scan_drivers drv orig ds (fastest_driver, fastest_time))"

definition request_driver :: "state \<Rightarrow> rider_ref \<Rightarrow> error + (driver_ref option \<times> state)" where
  "request_driver s r =
     (if length (driver_registry s) = 0
      then Inr (None, s\<lparr>waiting_list := waiting_list s @ [r]\<rparr>)
      else (case scan_drivers (drivers s) (origin (riders s r)) (driver_registry s) (None, 0) of
              Inl e \<Rightarrow> Inl e
            | Inr (fastest_driver, fastest_time) \<Rightarrow>
                (case fastest_driver of
                   None \<Rightarrow> Inr (None, s\<lparr>waiting_list := waiting_list s @ [r]\<rparr>)
                 | Some d \<Rightarrow> Inr (Some d, s))))"

text \<open>
  \<open>driver in self.driver_registry\<close>: Python walks the list and stops at the first
  element that is the same object or compares equal under \<open>Driver.__eq__\<close>, which
  reads the drivers' current attributes and may raise.
\<close>

fun driver_in :: "(driver_ref \<Rightarrow> driver) \<Rightarrow> driver_ref \<Rightarrow> driver_ref list \<Rightarrow> error + bool" where
  "driver_in drv d [] = Inr False"
| "driver_in drv d (e # es) =
     (if e = d then Inr True
      else (case driver_eq (drv e) (drv d) of
              Inl err \<Rightarrow> Inl err
            | Inr True \<Rightarrow> Inr True
            | Inr False \<Rightarrow> driver_in drv d es))"

definition request_rider :: "state \<Rightarrow> driver_ref \<Rightarrow> error + (rider_ref option \<times> state)" where
  "request_rider s d =
     (case driver_in (drivers s) d (driver_registry s) of
        Inl e \<Rightarrow> Inl e
      | Inr known \<Rightarrow>
          (let s1 = (if \<not> known then s\<lparr>driver_registry := driver_registry s @ [d]\<rparr> else s)
           in case waiting_list s1 of
                [] \<Rightarrow> Inr (None, s1)
              | r # rs \<Rightarrow> Inr (Some r, s1\<lparr>waiting_list := rs\<rparr>)))"

text \<open>
  \<open>Dispatcher.cancel_ride\<close>. \<open>Rider\<close> defines no \<open>__eq__\<close>, so membership and
  \<open>remove\<close> compare references; \<open>remove\<close> deletes the first occurrence.
\<close>

definition cancel_ride :: "state \<Rightarrow> rider_ref \<Rightarrow> state" where
  "cancel_ride s r =
     (if r \<in> set (waiting_list s) then s\<lparr>waiting_list := remove1 r (waiting_list s)\<rparr> else s)"

section \<open>event.py\<close>

datatype event =
    RiderRequest int rider_ref
  | DriverRequest int driver_ref
  | Cancellation int rider_ref
  | Pickup int rider_ref driver_ref
  | Dropoff int rider_ref driver_ref








text \<open>\<open>RiderRequest.do\<close>.\<close>

definition RiderRequest_do :: "int \<Rightarrow> rider_ref \<Rightarrow> state \<Rightarrow> error + (event list \<times> state)" where
  "RiderRequest_do t r s =
     (let s1 = notify s (t, RIDER, REQUEST, rider_id (riders s r), Some (origin (riders s r)))
      in case request_driver s1 r of
           Inl e \<Rightarrow> Inl e
         | Inr (None, s2) \<Rightarrow> Inr ([Cancellation (t + patience (riders s2 r)) r], s2)
         | Inr (Some d, s2) \<Rightarrow>
             (case start_drive (drivers s2 d) (origin (riders s2 r)) of
                Inl e \<Rightarrow> Inl e
              | Inr (travel_time, d') \<Rightarrow>
                  Inr ([Pickup (t + travel_time) r d,
                        Cancellation (t + patience (riders s2 r)) r],
                       s2\<lparr>drivers := (drivers s2)(d := d')\<rparr>)))"

text \<open>\<open>DriverRequest.do\<close>.\<close>

definition DriverRequest_do :: "int \<Rightarrow> driver_ref \<Rightarrow> state \<Rightarrow> error + (event list \<times> state)" where
  "DriverRequest_do t d s =
     (let s1 = notify s (t, DRIVER, REQUEST, driver_id (drivers s d), location (drivers s d))
      in case request_rider s1 d of
           Inl e \<Rightarrow> Inl e
         | Inr (None, s2) \<Rightarrow> Inr ([], s2)
         | Inr (Some r, s2) \<Rightarrow>
             (case start_drive (drivers s2 d) (origin (riders s2 r)) of
                Inl e \<Rightarrow> Inl e
              | Inr (travel_time, d') \<Rightarrow>
                  Inr ([Pickup (t + travel_time) r d],
                       s2\<lparr>drivers := (drivers s2)(d := d')\<rparr>)))"

text \<open>\<open>Cancellation.do\<close>.\<close>

definition Cancellation_do :: "int \<Rightarrow> rider_ref \<Rightarrow> state \<Rightarrow> error + (event list \<times> state)" where
  "Cancellation_do t r s =
     (if status (riders s r) \<noteq> SATISFIED then
        (let s1 = cancel_ride s r;
             s2 = s1\<lparr>riders := (riders s1)(r := (riders s1 r)\<lparr>status := CANCELLED\<rparr>)\<rparr>;
             s3 = notify s2 (t, RIDER, CANCEL, rider_id (riders s2 r), Some (origin (riders s2 r)))
         in Inr ([], s3))
      else Inr ([], s))"

text \<open>\<open>Pickup.do\<close>.\<close>

definition Pickup_do :: "int \<Rightarrow> rider_ref \<Rightarrow> driver_ref \<Rightarrow> state \<Rightarrow> error + (event list \<times> state)" where
  "Pickup_do t r d s =
     (let s1 = s\<lparr>drivers := (drivers s)(d := end_drive (drivers s d))\<rparr>
      in if status (riders s1 r) = WAITING then
           (let s2 = notify s1 (t, RIDER, PICKUP, rider_id (riders s1 r), Some (origin (riders s1 r)));
                s3 = notify s2 (t, DRIVER, PICKUP, driver_id (drivers s2 d), location (drivers s2 d))
            in case start_ride (drivers s3 d) (riders s3 r) of
                 Inl e \<Rightarrow> Inl e
               | Inr (travel_time, d') \<Rightarrow>
                   (let s4 = s3\<lparr>drivers := (drivers s3)(d := d')\<rparr>
                    in Inr ([Dropoff (t + travel_time) r d],
                            s4\<lparr>riders := (riders s4)(r := (riders s4 r)\<lparr>status := SATISFIED\<rparr>)\<rparr>)))
         else if status (riders s1 r) = CANCELLED then Inr ([DriverRequest t d], s1)
         else Inr ([], s1))"

text \<open>\<open>Dropoff.do\<close>.\<close>

definition Dropoff_do :: "int \<Rightarrow> rider_ref \<Rightarrow> driver_ref \<Rightarrow> state \<Rightarrow> error + (event list \<times> state)" where
  "Dropoff_do t r d s =
     (let s1 = s\<lparr>drivers := (drivers s)(d := end_ride (drivers s d))\<rparr>;
          s2 = notify s1 (t, DRIVER, DROPOFF, driver_id (drivers s1 d), location (drivers s1 d))
      in Inr ([DriverRequest t d], s2))"

text \<open>\<open>event.do(dispatcher, monitor)\<close>, dispatched on the event's class.\<close>

fun event_do :: "event \<Rightarrow> state \<Rightarrow> error + (event list \<times> state)" where
  "event_do (RiderRequest t r) s = RiderRequest_do t r s"
| "event_do (DriverRequest t d) s = DriverRequest_do t d s"
| "event_do (Cancellation t r) s = Cancellation_do t r s"
| "event_do (Pickup t r d) s = Pickup_do t r d s"
| "event_do (Dropoff t r d) s = Dropoff_do t r d s"

section \<open>Derived notions used in the statements\<close>

text \<open>The driver invariant of the data model: a destination is set iff the driver is not idle.\<close>

definition driver_inv :: "driver \<Rightarrow> bool" where
  "driver_inv d = ((destination d \<noteq> None) = (\<not> is_idle d))"

text \<open>The class tests \<open>isinstance(e, Cancellation)\<close> and \<open>isinstance(e, Pickup)\<close>.\<close>

fun is_Cancellation :: "event \<Rightarrow> bool" where
  "is_Cancellation (Cancellation t r) = True"
| "is_Cancellation e = False"

fun is_Pickup :: "event \<Rightarrow> bool" where
  "is_Pickup (Pickup t r d) = True"
| "is_Pickup e = False"

text \<open>
  A state for the registration examples: two driver objects with the same id
  \<open>Amy\<close> at different locations, nothing registered, nobody waiting.
\<close>

definition two_amys :: state where
  "two_amys =
     \<lparr>riders = (\<lambda>_. Rider ''Bob'' \<lparr>row = 0, column = 3\<rparr> \<lparr>row = 0, column = 10\<rparr> 20),
      drivers = (\<lambda>_. Driver ''Amy'' \<lparr>row = 5, column = 5\<rparr> 1)
        (0 := Driver ''Amy'' \<lparr>row = 0, column = 0\<rparr> 1),
      waiting_list = [], driver_registry = [], monitor = []\<rparr>"

text \<open>
  A state for the matching examples: three registered drivers, the first busy, the
  other two idle and both three units away from every rider's origin (0,3).
\<close>

definition queue_state :: state where
  "queue_state =
     \<lparr>riders = (\<lambda>_. Rider ''Bob'' \<lparr>row = 0, column = 3\<rparr> \<lparr>row = 0, column = 10\<rparr> 20),
      drivers = (\<lambda>_. Driver ''Amy'' \<lparr>row = 0, column = 0\<rparr> 1)
        (0 := (Driver ''Dan'' \<lparr>row = 0, column = 3\<rparr> 1)
                \<lparr>is_idle := False, destination := Some \<lparr>row = 5, column = 5\<rparr>\<rparr>,
         2 := Driver ''Eve'' \<lparr>row = 0, column = 6\<rparr> 1),
      waiting_list = [], driver_registry = [0, 1, 2], monitor = []\<rparr>"

section \<open>Auxiliary facts\<close>

lemma get_travel_time_is_idle:
  "get_travel_time (d\<lparr>is_idle := b\<rparr>) loc = get_travel_time d loc"
  by (simp add: get_travel_time_def split: option.splits)

lemma get_travel_time_destination:
  "get_travel_time (d\<lparr>destination := x\<rparr>) loc = get_travel_time d loc"
  by (simp add: get_travel_time_def split: option.splits)

lemma start_drive_Inr:
  "start_drive d loc = Inr (t, d') \<longleftrightarrow>
     get_travel_time d loc = Inr t \<and> d' = d\<lparr>is_idle := False, destination := Some loc\<rparr>"
  by (auto simp: start_drive_def Let_def get_travel_time_is_idle split: sum.splits)

lemma start_ride_Inr:
  "start_ride d r = Inr (t, d') \<longleftrightarrow>
     get_travel_time d (rider_destination r) = Inr t \<and>
     d' = d\<lparr>destination := Some (rider_destination r), is_idle := False\<rparr>"
  by (auto simp: start_ride_def Let_def get_travel_time_is_idle get_travel_time_destination
      split: sum.splits)

lemma round_true_div_3_1: "round_true_div 3 1 = Inr 3"
  by code_simp

lemma scan_drivers_no_idle:
  "\<forall>e\<in>set ds. \<not> is_idle (drv e) \<Longrightarrow> scan_drivers drv orig ds acc = Inr acc"
  by (induction ds) (auto simp: prod.exhaust intro: prod.exhaust[of acc])

lemma scan_drivers_returns:
  "\<forall>e\<in>set ds. is_idle (drv e) \<longrightarrow> (\<exists>te. get_travel_time (drv e) orig = Inr te) \<Longrightarrow>
   \<exists>res. scan_drivers drv orig ds acc = Inr res"
proof (induction ds arbitrary: acc)
  case Nil
  then show ?case by simp
next
  case (Cons d ds)
  obtain f tf where acc: "acc = (f, tf)" by (cases acc)
  show ?case
  proof (cases "is_idle (drv d)")
    case False
    with Cons acc show ?thesis by simp
  next
    case True
    with Cons.prems obtain t where t: "get_travel_time (drv d) orig = Inr t" by auto
    from Cons have ih: "\<And>a. \<exists>res. scan_drivers drv orig ds a = Inr res" by simp
    show ?thesis using True t acc ih by (cases f) (auto)
  qed
qed

lemma scan_drivers_Some:
  "scan_drivers drv orig ds (Some f, tf) = Inr (res, t) \<Longrightarrow>
   (res = Some f \<and> t = tf \<and>
      (\<forall>e\<in>set ds. is_idle (drv e) \<longrightarrow> (\<exists>te. get_travel_time (drv e) orig = Inr te \<and> tf \<le> te))) \<or>
   (\<exists>pre d post. ds = pre @ d # post \<and> res = Some d \<and> is_idle (drv d) \<and>
      get_travel_time (drv d) orig = Inr t \<and> t < tf \<and>
      (\<forall>e\<in>set pre. is_idle (drv e) \<longrightarrow> (\<exists>te. get_travel_time (drv e) orig = Inr te \<and> t < te)) \<and>
      (\<forall>e\<in>set post. is_idle (drv e) \<longrightarrow> (\<exists>te. get_travel_time (drv e) orig = Inr te \<and> t \<le> te)))"
proof (induction ds arbitrary: f tf)
  case Nil
  then show ?case by simp
next
  case (Cons d0 ds)
  show ?case
  proof (cases "is_idle (drv d0)")
    case False
    with Cons.prems have "scan_drivers drv orig ds (Some f, tf) = Inr (res, t)" by simp
    from Cons.IH [OF this] show ?thesis
    proof
      assume "res = Some f \<and> t = tf \<and>
        (\<forall>e\<in>set ds. is_idle (drv e) \<longrightarrow> (\<exists>te. get_travel_time (drv e) orig = Inr te \<and> tf \<le> te))"
      with False show ?thesis by simp
    next
      assume "\<exists>pre d post. ds = pre @ d # post \<and> res = Some d \<and> is_idle (drv d) \<and>
        get_travel_time (drv d) orig = Inr t \<and> t < tf \<and>
        (\<forall>e\<in>set pre. is_idle (drv e) \<longrightarrow> (\<exists>te. get_travel_time (drv e) orig = Inr te \<and> t < te)) \<and>
        (\<forall>e\<in>set post. is_idle (drv e) \<longrightarrow> (\<exists>te. get_travel_time (drv e) orig = Inr te \<and> t \<le> te))"
      then obtain pre d post where s: "ds = pre @ d # post" "res = Some d" "is_idle (drv d)"
        "get_travel_time (drv d) orig = Inr t" "t < tf"
        "\<forall>e\<in>set pre. is_idle (drv e) \<longrightarrow> (\<exists>te. get_travel_time (drv e) orig = Inr te \<and> t < te)"
        "\<forall>e\<in>set post. is_idle (drv e) \<longrightarrow> (\<exists>te. get_travel_time (drv e) orig = Inr te \<and> t \<le> te)"
        by blast
      have "d0 # ds = (d0 # pre) @ d # post" using s(1) by simp
      moreover have "\<forall>e\<in>set (d0 # pre). is_idle (drv e) \<longrightarrow>
          (\<exists>te. get_travel_time (drv e) orig = Inr te \<and> t < te)"
        using s(6) False by simp
      ultimately show ?thesis using s by blast
    qed
  next
    case True
    with Cons.prems obtain t0 where t0: "get_travel_time (drv d0) orig = Inr t0"
      by (auto split: sum.splits)
    show ?thesis
    proof (cases "t0 < tf")
      case lt: True
      with Cons.prems True t0 have "scan_drivers drv orig ds (Some d0, t0) = Inr (res, t)" by simp
      from Cons.IH [OF this] show ?thesis
      proof
        assume a: "res = Some d0 \<and> t = t0 \<and>
          (\<forall>e\<in>set ds. is_idle (drv e) \<longrightarrow> (\<exists>te. get_travel_time (drv e) orig = Inr te \<and> t0 \<le> te))"
        have "d0 # ds = [] @ d0 # ds" by simp
        moreover have "\<forall>e\<in>set []. is_idle (drv e) \<longrightarrow>
          (\<exists>te. get_travel_time (drv e) orig = Inr te \<and> t < te)" by simp
        ultimately show ?thesis using a True t0 lt by blast
      next
        assume "\<exists>pre d post. ds = pre @ d # post \<and> res = Some d \<and> is_idle (drv d) \<and>
          get_travel_time (drv d) orig = Inr t \<and> t < t0 \<and>
          (\<forall>e\<in>set pre. is_idle (drv e) \<longrightarrow> (\<exists>te. get_travel_time (drv e) orig = Inr te \<and> t < te)) \<and>
          (\<forall>e\<in>set post. is_idle (drv e) \<longrightarrow> (\<exists>te. get_travel_time (drv e) orig = Inr te \<and> t \<le> te))"
        then obtain pre d post where s: "ds = pre @ d # post" "res = Some d" "is_idle (drv d)"
          "get_travel_time (drv d) orig = Inr t" "t < t0"
          "\<forall>e\<in>set pre. is_idle (drv e) \<longrightarrow> (\<exists>te. get_travel_time (drv e) orig = Inr te \<and> t < te)"
          "\<forall>e\<in>set post. is_idle (drv e) \<longrightarrow> (\<exists>te. get_travel_time (drv e) orig = Inr te \<and> t \<le> te)"
          by blast
        have "d0 # ds = (d0 # pre) @ d # post" using s(1) by simp
        moreover have "\<forall>e\<in>set (d0 # pre). is_idle (drv e) \<longrightarrow>
            (\<exists>te. get_travel_time (drv e) orig = Inr te \<and> t < te)"
          using s(5,6) t0 by simp
        moreover have "t < tf" using s(5) lt by simp
        ultimately show ?thesis using s by blast
      qed
    next
      case ge: False
      with Cons.prems True t0 have "scan_drivers drv orig ds (Some f, tf) = Inr (res, t)" by simp
      from Cons.IH [OF this] show ?thesis
      proof
        assume "res = Some f \<and> t = tf \<and>
          (\<forall>e\<in>set ds. is_idle (drv e) \<longrightarrow> (\<exists>te. get_travel_time (drv e) orig = Inr te \<and> tf \<le> te))"
        with t0 ge show ?thesis by simp
      next
        assume "\<exists>pre d post. ds = pre @ d # post \<and> res = Some d \<and> is_idle (drv d) \<and>
          get_travel_time (drv d) orig = Inr t \<and> t < tf \<and>
          (\<forall>e\<in>set pre. is_idle (drv e) \<longrightarrow> (\<exists>te. get_travel_time (drv e) orig = Inr te \<and> t < te)) \<and>
          (\<forall>e\<in>set post. is_idle (drv e) \<longrightarrow> (\<exists>te. get_travel_time (drv e) orig = Inr te \<and> t \<le> te))"
        then obtain pre d post where s: "ds = pre @ d # post" "res = Some d" "is_idle (drv d)"
          "get_travel_time (drv d) orig = Inr t" "t < tf"
          "\<forall>e\<in>set pre. is_idle (drv e) \<longrightarrow> (\<exists>te. get_travel_time (drv e) orig = Inr te \<and> t < te)"
          "\<forall>e\<in>set post. is_idle (drv e) \<longrightarrow> (\<exists>te. get_travel_time (drv e) orig = Inr te \<and> t \<le> te)"
          by blast
        have "d0 # ds = (d0 # pre) @ d # post" using s(1) by simp
        moreover have "\<forall>e\<in>set (d0 # pre). is_idle (drv e) \<longrightarrow>
            (\<exists>te. get_travel_time (drv e) orig = Inr te \<and> t < te)"
          using s(5,6) t0 ge by simp
        ultimately show ?thesis using s by blast
      qed
    qed
  qed
qed


lemma scan_drivers_None:
  "scan_drivers drv orig ds (None, t0) = Inr (res, t) \<Longrightarrow>
   (res = None \<and> (\<forall>e\<in>set ds. \<not> is_idle (drv e))) \<or>
   (\<exists>pre d post. ds = pre @ d # post \<and> res = Some d \<and> is_idle (drv d) \<and>
      get_travel_time (drv d) orig = Inr t \<and>
      (\<forall>e\<in>set pre. is_idle (drv e) \<longrightarrow> (\<exists>te. get_travel_time (drv e) orig = Inr te \<and> t < te)) \<and>
      (\<forall>e\<in>set post. is_idle (drv e) \<longrightarrow> (\<exists>te. get_travel_time (drv e) orig = Inr te \<and> t \<le> te)))"
proof (induction ds)
  case Nil
  then show ?case by simp
next
  case (Cons d0 ds)
  show ?case
  proof (cases "is_idle (drv d0)")
    case False
    with Cons.prems have "scan_drivers drv orig ds (None, t0) = Inr (res, t)" by simp
    from Cons.IH [OF this] show ?thesis
    proof
      assume "res = None \<and> (\<forall>e\<in>set ds. \<not> is_idle (drv e))"
      with False show ?thesis by simp
    next
      assume "\<exists>pre d post. ds = pre @ d # post \<and> res = Some d \<and> is_idle (drv d) \<and>
        get_travel_time (drv d) orig = Inr t \<and>
        (\<forall>e\<in>set pre. is_idle (drv e) \<longrightarrow> (\<exists>te. get_travel_time (drv e) orig = Inr te \<and> t < te)) \<and>
        (\<forall>e\<in>set post. is_idle (drv e) \<longrightarrow> (\<exists>te. get_travel_time (drv e) orig = Inr te \<and> t \<le> te))"
      then obtain pre d post where s: "ds = pre @ d # post" "res = Some d" "is_idle (drv d)"
        "get_travel_time (drv d) orig = Inr t"
        "\<forall>e\<in>set pre. is_idle (drv e) \<longrightarrow> (\<exists>te. get_travel_time (drv e) orig = Inr te \<and> t < te)"
        "\<forall>e\<in>set post. is_idle (drv e) \<longrightarrow> (\<exists>te. get_travel_time (drv e) orig = Inr te \<and> t \<le> te)"
        by blast
      have "d0 # ds = (d0 # pre) @ d # post" using s(1) by simp
      moreover have "\<forall>e\<in>set (d0 # pre). is_idle (drv e) \<longrightarrow>
          (\<exists>te. get_travel_time (drv e) orig = Inr te \<and> t < te)"
        using s(5) False by simp
      ultimately show ?thesis using s by blast
    qed
  next
    case True
    with Cons.prems obtain t1 where t1: "get_travel_time (drv d0) orig = Inr t1"
      by (auto split: sum.splits)
    with Cons.prems True have "scan_drivers drv orig ds (Some d0, t1) = Inr (res, t)" by simp
    from scan_drivers_Some [OF this] show ?thesis
    proof
      assume a: "res = Some d0 \<and> t = t1 \<and>
        (\<forall>e\<in>set ds. is_idle (drv e) \<longrightarrow> (\<exists>te. get_travel_time (drv e) orig = Inr te \<and> t1 \<le> te))"
      have "d0 # ds = [] @ d0 # ds" by simp
      moreover have "\<forall>e\<in>set []. is_idle (drv e) \<longrightarrow>
        (\<exists>te. get_travel_time (drv e) orig = Inr te \<and> t < te)" by simp
      ultimately show ?thesis using a True t1 by blast
    next
      assume "\<exists>pre d post. ds = pre @ d # post \<and> res = Some d \<and> is_idle (drv d) \<and>
        get_travel_time (drv d) orig = Inr t \<and> t < t1 \<and>
        (\<forall>e\<in>set pre. is_idle (drv e) \<longrightarrow> (\<exists>te. get_travel_time (drv e) orig = Inr te \<and> t < te)) \<and>
        (\<forall>e\<in>set post. is_idle (drv e) \<longrightarrow> (\<exists>te. get_travel_time (drv e) orig = Inr te \<and> t \<le> te))"
      then obtain pre d post where s: "ds = pre @ d # post" "res = Some d" "is_idle (drv d)"
        "get_travel_time (drv d) orig = Inr t" "t < t1"
        "\<forall>e\<in>set pre. is_idle (drv e) \<longrightarrow> (\<exists>te. get_travel_time (drv e) orig = Inr te \<and> t < te)"
        "\<forall>e\<in>set post. is_idle (drv e) \<longrightarrow> (\<exists>te. get_travel_time (drv e) orig = Inr te \<and> t \<le> te)"
        by blast
      have "d0 # ds = (d0 # pre) @ d # post" using s(1) by simp
      moreover have "\<forall>e\<in>set (d0 # pre). is_idle (drv e) \<longrightarrow>
          (\<exists>te. get_travel_time (drv e) orig = Inr te \<and> t < te)"
        using s(5,6) t1 by simp
      ultimately show ?thesis using s by blast
    qed
  qed
qed

lemma location_eq_iff: "location_eq a b \<longleftrightarrow> a = b"
  by (cases a, cases b) (simp add: location_eq_def)

lemma opt_location_eq_cases:
  "opt_location_eq x y = Inr (x = y) \<or> (opt_location_eq x y = Inl AttributeError \<and> x \<noteq> y)"
  by (cases x; cases y) (simp_all add: location_eq_iff)

lemma driver_eq_True_iff:
  "driver_eq a b = Inr True \<longleftrightarrow>
     driver_id a = driver_id b \<and> location a = location b \<and>
     destination a = destination b \<and> speed a = speed b"
  using opt_location_eq_cases [of "location a" "location b"]
    opt_location_eq_cases [of "destination a" "destination b"]
  by (auto simp: driver_eq_def split: bool.splits)




lemma driver_in_returns:
  "\<forall>e\<in>set ds. \<exists>b. driver_eq (drv e) (drv d) = Inr b \<Longrightarrow> \<exists>b. driver_in drv d ds = Inr b"
proof (induction ds)
  case Nil
  have "driver_in drv d [] = Inr False" by simp
  then show ?case by (rule exI)
next
  case (Cons e es)
  then obtain b where b: "driver_eq (drv e) (drv d) = Inr b" by auto
  from Cons obtain b' where b': "driver_in drv d es = Inr b'" by auto
  have "driver_in drv d (e # es) = Inr (e = d \<or> b \<or> b')"
    using b b' by (cases b) simp_all
  then show ?case by (rule exI)
qed

lemma request_rider_Inl:
  "driver_in (drivers s) d (driver_registry s) = Inl e \<Longrightarrow> request_rider s d = Inl e"
  by (simp add: request_rider_def)

lemma request_rider_empty:
  "driver_in (drivers s) d (driver_registry s) = Inr known \<Longrightarrow> waiting_list s = [] \<Longrightarrow>
   request_rider s d =
     Inr (None, if known then s else s\<lparr>driver_registry := driver_registry s @ [d]\<rparr>)"
  by (simp add: request_rider_def)

lemma request_rider_cons:
  "driver_in (drivers s) d (driver_registry s) = Inr known \<Longrightarrow> waiting_list s = x # xs \<Longrightarrow>
   request_rider s d =
     Inr (Some x, (if known then s else s\<lparr>driver_registry := driver_registry s @ [d]\<rparr>)
                    \<lparr>waiting_list := xs\<rparr>)"
  by (simp add: request_rider_def)


lemma request_rider_cases:
  assumes "request_rider s d = Inr (res, s')"
  obtains known where "driver_in (drivers s) d (driver_registry s) = Inr known"
    and "res = (case waiting_list s of [] \<Rightarrow> None | x # xs \<Rightarrow> Some x)"
    and "waiting_list s' = tl (waiting_list s)"
    and "driver_registry s' = (if known then driver_registry s else driver_registry s @ [d])"
    and "drivers s' = drivers s" and "riders s' = riders s" and "monitor s' = monitor s"
proof (cases "driver_in (drivers s) d (driver_registry s)")
  case (Inl e)
  with assms show ?thesis by (simp add: request_rider_Inl)
next
  case (Inr known)
  show ?thesis
  proof (cases "waiting_list s")
    case Nil
    from request_rider_empty [OF Inr Nil] assms
    have "res = None" and "s' = (if known then s else s\<lparr>driver_registry := driver_registry s @ [d]\<rparr>)"
      by simp_all
    with Inr Nil that [of known] show ?thesis by (cases known) simp_all
  next
    case (Cons x xs)
    from request_rider_cons [OF Inr Cons] assms
    have "res = Some x" and "s' = (if known then s else s\<lparr>driver_registry := driver_registry s @ [d]\<rparr>)
                    \<lparr>waiting_list := xs\<rparr>"
      by simp_all
    with Inr Cons that [of known] show ?thesis by (cases known) simp_all
  qed
qed


lemma request_driver_None:
  "request_driver s r = Inr (None, s') \<Longrightarrow> s' = s\<lparr>waiting_list := waiting_list s @ [r]\<rparr>"
  by (auto simp: request_driver_def split: if_splits sum.splits option.splits)

lemma request_driver_Some:
  "request_driver s r = Inr (Some d, s') \<Longrightarrow>
     s' = s \<and> d \<in> set (driver_registry s) \<and> is_idle (drivers s d) \<and>
     (\<exists>t. get_travel_time (drivers s d) (origin (riders s r)) = Inr t)"
proof -
  assume a: "request_driver s r = Inr (Some d, s')"
  then obtain t where sc: "scan_drivers (drivers s) (origin (riders s r)) (driver_registry s) (None, 0)
      = Inr (Some d, t)" and s': "s' = s"
    by (auto simp: request_driver_def split: if_splits sum.splits option.splits)
  from scan_drivers_None [OF sc] s' show ?thesis by auto
qed

lemma driver_eq_refl: "driver_eq a a = Inr True"
  by (simp add: driver_eq_True_iff)

lemma queue_state_fields:
  "driver_registry queue_state = [0, Suc 0, 2]"
  "origin (riders queue_state r) = \<lparr>row = 0, column = 3\<rparr>"
  "drivers queue_state 0 = (Driver ''Dan'' \<lparr>row = 0, column = 3\<rparr> 1)
                \<lparr>is_idle := False, destination := Some \<lparr>row = 5, column = 5\<rparr>\<rparr>"
  "drivers queue_state (Suc 0) = Driver ''Amy'' \<lparr>row = 0, column = 0\<rparr> 1"
  "drivers queue_state 2 = Driver ''Eve'' \<lparr>row = 0, column = 6\<rparr> 1"
  by (simp_all add: queue_state_def Rider_def)

lemma queue_state_times:
  "get_travel_time (Driver ''Amy'' \<lparr>row = 0, column = 0\<rparr> 1) \<lparr>row = 0, column = 3\<rparr> = Inr 3"
  "get_travel_time (Driver ''Eve'' \<lparr>row = 0, column = 6\<rparr> 1) \<lparr>row = 0, column = 3\<rparr> = Inr 3"
  by (simp_all add: get_travel_time_def Driver_def manhattan_distance_def round_true_div_3_1)

lemma queue_state_request:
  "request_driver queue_state 0 = Inr (Some 1, queue_state)"
  by (simp add: request_driver_def queue_state_fields queue_state_times)
    (simp add: Driver_def)

lemma riders_notify [simp]: "riders (notify s n) = riders s"
  and drivers_notify [simp]: "drivers (notify s n) = drivers s"
  and waiting_list_notify [simp]: "waiting_list (notify s n) = waiting_list s"
  and driver_registry_notify [simp]: "driver_registry (notify s n) = driver_registry s"
  by (simp_all add: notify_def)

lemma riders_cancel_ride [simp]: "riders (cancel_ride s r) = riders s"
  and drivers_cancel_ride [simp]: "drivers (cancel_ride s r) = drivers s"
  and driver_registry_cancel_ride [simp]: "driver_registry (cancel_ride s r) = driver_registry s"
  and waiting_list_cancel_ride: "waiting_list (cancel_ride s r) = remove1 r (waiting_list s)"
  by (simp_all add: cancel_ride_def remove1_idem)

lemma request_driver_riders:
  "request_driver s r = Inr (res, s') \<Longrightarrow> riders s' = riders s"
  using request_driver_None [of s r s'] request_driver_Some [of s r _ s']
  by (cases res) auto

lemma RiderRequest_do_riders:
  "RiderRequest_do t r s = Inr (evs, s') \<Longrightarrow> riders s' = riders s"
  by (auto simp: RiderRequest_do_def Let_def split: sum.splits option.splits prod.splits
      dest!: request_driver_riders)

lemma DriverRequest_do_riders:
  "DriverRequest_do t d s = Inr (evs, s') \<Longrightarrow> riders s' = riders s"
  by (auto simp: DriverRequest_do_def Let_def split: sum.splits option.splits prod.splits
      elim!: request_rider_cases)

lemma Dropoff_do_riders:
  "Dropoff_do t r d s = Inr (evs, s') \<Longrightarrow> riders s' = riders s"
  by (auto simp: Dropoff_do_def Let_def)

lemma Cancellation_do_satisfied:
  "status (riders s r) = SATISFIED \<Longrightarrow> Cancellation_do t r s = Inr ([], s)"
  by (simp add: Cancellation_do_def)

lemma Cancellation_do_other:
  "status (riders s r) \<noteq> SATISFIED \<Longrightarrow>
   \<exists>s'. Cancellation_do t r s = Inr ([], s') \<and>
        riders s' = (riders s)(r := (riders s r)\<lparr>status := CANCELLED\<rparr>) \<and>
        waiting_list s' = remove1 r (waiting_list s) \<and>
        drivers s' = drivers s \<and> driver_registry s' = driver_registry s"
  by (simp add: Cancellation_do_def Let_def waiting_list_cancel_ride)

lemma Pickup_do_cancelled:
  "status (riders s r) = CANCELLED \<Longrightarrow>
   Pickup_do t r d s = Inr ([DriverRequest t d], s\<lparr>drivers := (drivers s)(d := end_drive (drivers s d))\<rparr>)"
  by (simp add: Pickup_do_def Let_def)

lemma Pickup_do_satisfied:
  "status (riders s r) = SATISFIED \<Longrightarrow>
   Pickup_do t r d s = Inr ([], s\<lparr>drivers := (drivers s)(d := end_drive (drivers s d))\<rparr>)"
  by (simp add: Pickup_do_def Let_def)

lemma Pickup_do_waiting:
  "status (riders s r) = WAITING \<Longrightarrow> Pickup_do t r d s = Inr (evs, s') \<Longrightarrow>
   riders s' = (riders s)(r := (riders s r)\<lparr>status := SATISFIED\<rparr>)"
  by (auto simp: Pickup_do_def Let_def split: sum.splits prod.splits)

lemma event_do_status:
  assumes "event_do e s = Inr (evs, s')"
  shows "status (riders s' x) = status (riders s x) \<or>
         (status (riders s x) = WAITING \<and>
          (status (riders s' x) = CANCELLED \<or> status (riders s' x) = SATISFIED))"
proof (cases e)
  case (RiderRequest t r)
  with assms show ?thesis by (simp add: RiderRequest_do_riders)
next
  case (DriverRequest t d)
  with assms show ?thesis by (simp add: DriverRequest_do_riders)
next
  case (Cancellation t r)
  show ?thesis
  proof (cases "status (riders s r) = SATISFIED")
    case True
    with assms Cancellation show ?thesis by (simp add: Cancellation_do_satisfied)
  next
    case False
    from Cancellation_do_other [OF False, of t] assms Cancellation
    have "riders s' = (riders s)(r := (riders s r)\<lparr>status := CANCELLED\<rparr>)" by auto
    with False show ?thesis by (cases "status (riders s r)") auto
  qed
next
  case (Pickup t r d)
  show ?thesis
  proof (cases "status (riders s r)")
    case WAITING
    from Pickup_do_waiting [OF WAITING] assms Pickup
    have "riders s' = (riders s)(r := (riders s r)\<lparr>status := SATISFIED\<rparr>)" by simp
    with WAITING show ?thesis by auto
  next
    case CANCELLED
    with assms Pickup show ?thesis by (auto simp: Pickup_do_cancelled)
  next
    case SATISFIED
    with assms Pickup show ?thesis by (auto simp: Pickup_do_satisfied)
  qed
next
  case (Dropoff t r d)
  with assms show ?thesis by (simp add: Dropoff_do_riders)
qed

lemma two_amys_riders: "riders two_amys r = Rider ''Bob'' \<lparr>row = 0, column = 3\<rparr> \<lparr>row = 0, column = 10\<rparr> 20"
  by (simp add: two_amys_def)

lemma request_driver_notify:
  "request_driver s r = Inr (res, s1) \<Longrightarrow> request_driver (notify s n) r = Inr (res, notify s1 n)"
  by (auto simp: request_driver_def notify_def split: if_splits sum.splits option.splits)

lemma request_driver_notify_Inl:
  "request_driver s r = Inl e \<Longrightarrow> request_driver (notify s n) r = Inl e"
  by (auto simp: request_driver_def notify_def split: if_splits sum.splits option.splits)

lemma remove1_count_le_1: "count_list xs r \<le> 1 \<Longrightarrow> r \<notin> set (remove1 r xs)"
proof (induction xs)
  case Nil
  then show ?case by simp
next
  case (Cons x xs)
  show ?case
  proof (cases "x = r")
    case True
    with Cons.prems have "count_list xs r = 0" by simp
    then have "r \<notin> set xs" by (simp add: count_list_0_iff)
    with True show ?thesis by simp
  next
    case False
    with Cons show ?thesis by simp
  qed
qed

subsection \<open>Rounding\<close>

text \<open>
  \<open>round_half_even\<close> is the nearest integer with ties to even. Rounding twice, first
  to a multiple of \<open>2 ^ - k\<close> and then to an integer, agrees with rounding once as
  long as the divisor is below \<open>2 ^ k\<close>; for a dividend below \<open>2 ^ 52\<close> the unit in
  the last place of the binary64 quotient is that fine, so \<open>round(a / b)\<close> is the
  half-even rounding of the exact quotient there.
\<close>

lemma rhe_low: "2 * (n mod m) < m \<Longrightarrow> round_half_even n m = n div m"
  by (simp add: round_half_even_def Let_def)

lemma rhe_high: "m < 2 * (n mod m) \<Longrightarrow> round_half_even n m = n div m + 1"
  by (simp add: round_half_even_def Let_def)

lemma rhe_tie:
  "2 * (n mod m) = m \<Longrightarrow> round_half_even n m = (if even (n div m) then n div m else n div m + 1)"
  by (simp add: round_half_even_def Let_def)

lemma rhe_between: "n div m \<le> round_half_even n m \<and> round_half_even n m \<le> n div m + 1"
  by (simp add: round_half_even_def Let_def)

lemma rhe_upper:
  assumes "0 < m" "2 * n < (2 * N - 1) * m"
  shows "round_half_even n m \<le> N - 1"
proof -
  let ?q = "n div m" and ?r = "n mod m"
  have n: "n = m * ?q + ?r" by simp
  have r: "0 \<le> ?r" "?r < m" using assms(1) by simp_all
  consider "?q \<le> N - 2" | "?q = N - 1" | "N \<le> ?q" by linarith
  then show ?thesis
  proof cases
    case 1
    with rhe_between [of n m] show ?thesis by linarith
  next
    case 2
    have "m * ?q = m * (N - 1)" using 2 by simp
    then have "m * ?q = m * N - m" by (simp add: right_diff_distrib)
    with n have "n = m * N - m + ?r" by linarith
    with assms(2) have "2 * ?r < m" by (simp add: algebra_simps)
    then have "round_half_even n m = ?q" by (rule rhe_low)
    with 2 show ?thesis by simp
  next
    case 3
    then have "m * N \<le> m * ?q" using assms(1) by (simp add: mult_left_mono)
    with n r have "m * N \<le> n" by linarith
    with assms show ?thesis by (simp add: algebra_simps)
  qed
qed

lemma rhe_lower:
  assumes "0 < m" "(2 * N + 1) * m < 2 * n"
  shows "N + 1 \<le> round_half_even n m"
proof -
  let ?q = "n div m" and ?r = "n mod m"
  have n: "n = m * ?q + ?r" by simp
  have r: "0 \<le> ?r" "?r < m" using assms(1) by simp_all
  consider "?q \<le> N - 1" | "?q = N" | "N + 1 \<le> ?q" by linarith
  then show ?thesis
  proof cases
    case 1
    then have "m * ?q \<le> m * (N - 1)" using assms(1) by (simp add: mult_left_mono)
    then have "m * ?q \<le> m * N - m" by (simp add: algebra_simps)
    with n r have "n < m * N" by linarith
    with assms show ?thesis by (simp add: algebra_simps)
  next
    case 2
    with n have "n = m * N + ?r" by simp
    with assms(2) have "m < 2 * ?r" by (simp add: algebra_simps)
    then have "round_half_even n m = ?q + 1" by (rule rhe_high)
    with 2 show ?thesis by simp
  next
    case 3
    with rhe_between [of n m] show ?thesis by linarith
  qed
qed

lemma rhe_le:
  assumes "0 < m" "n \<le> N * m"
  shows "round_half_even n m \<le> N"
proof -
  have "2 * n < (2 * (N + 1) - 1) * m" using assms by (simp add: algebra_simps)
  from rhe_upper [OF assms(1) this] show ?thesis by simp
qed

lemma rhe_nonneg: "0 < m \<Longrightarrow> 0 \<le> n \<Longrightarrow> 0 \<le> round_half_even n m"
  using rhe_between [of n m] by (smt (verit) pos_imp_zdiv_nonneg_iff)


lemma div_mod_between:
  fixes m K q :: int
  assumes "K * q \<le> m" "m < K * q + K"
  shows "m div K = q" and "m mod K = m - K * q"
proof -
  have "m = K * q + (m - K * q)" by simp
  moreover have "0 \<le> m - K * q" "m - K * q < K" using assms by simp_all
  ultimately show "m div K = q" by (metis int_div_pos_eq)
  then show "m mod K = m - K * q" by (simp add: minus_mult_div_eq_mod [symmetric])
qed

lemma double_round:
  fixes a b :: int and k :: nat
  assumes a: "0 \<le> a" and b: "0 < b" and k: "1 \<le> k" and bk: "b < 2 ^ k"
  shows "round_half_even (round_half_even (a * 2 ^ k) b) (2 ^ k) = round_half_even a b"
proof -
  define K :: int where "K = 2 ^ k"
  define H :: int where "H = 2 ^ (k - 1)"
  define q where "q = a div b"
  define r where "r = a mod b"
  define m where "m = round_half_even (a * K) b"
  have KH: "K = 2 * H" using k by (cases k) (simp_all add: K_def H_def)
  have Hpos: "0 < H" by (simp add: H_def)
  have Kpos: "0 < K" by (simp add: K_def)
  have bK: "b < K" using bk by (simp add: K_def)
  have ab: "a = b * q + r" by (simp add: q_def r_def)
  have r: "0 \<le> r" "r < b" using b by (simp_all add: r_def)
  have aK: "a * K = b * (q * K) + r * K"
    by (subst ab) (simp add: algebra_simps)
  have q0: "0 \<le> q" using a b by (simp add: q_def pos_imp_zdiv_nonneg_iff)
  consider (tie) "2 * r = b" | (low) "2 * r < b" | (high) "b < 2 * r" by linarith
  then have "round_half_even m K = round_half_even a b"
  proof cases
    case tie
    have "r * K = b * H" using tie KH by (simp add: algebra_simps)
    with aK have e: "a * K = b * (q * K + H)" by (simp add: algebra_simps)
    have "(a * K) div b = q * K + H" "(a * K) mod b = 0"
      using b by (simp_all add: e)
    then have mv: "m = q * K + H" using b by (simp add: m_def rhe_low)
    have "K * q \<le> m" "m < K * q + K" using mv Hpos KH by (simp_all add: algebra_simps)
    from div_mod_between [OF this] mv have "m div K = q" "m mod K = H"
      by (simp_all add: algebra_simps)
    then have "round_half_even m K = (if even q then q else q + 1)"
      using KH by (simp add: rhe_tie)
    moreover have "round_half_even a b = (if even q then q else q + 1)"
      using tie by (simp add: rhe_tie q_def r_def)
    ultimately show ?thesis by simp
  next
    case low
    then have "2 * r \<le> b - 1" by simp
    then have "2 * r * K \<le> (b - 1) * K" using Kpos by (simp add: mult_right_mono)
    then have rk: "2 * (r * K) < b * K - b" using bK by (simp add: algebra_simps)
    have "2 * (a * K) < (2 * (q * K + H) - 1) * b"
      using aK rk KH by (simp add: algebra_simps)
    from rhe_upper [OF b this] have up: "m \<le> q * K + H - 1" by (simp add: m_def)
    have "0 \<le> r * K" using r Kpos by simp
    with aK have "b * (q * K) \<le> a * K" by simp
    then have "(b * (q * K)) div b \<le> (a * K) div b" using b by (rule zdiv_mono1)
    then have "q * K \<le> (a * K) div b" using b by simp
    with rhe_between [of "a * K" b] have lo: "q * K \<le> m" by (simp add: m_def)
    have "K * q \<le> m" "m < K * q + K" using lo up Hpos KH by (simp_all add: algebra_simps)
    from div_mod_between [OF this] have d: "m div K = q" "m mod K = m - K * q" .
    have "2 * (m mod K) < K" using d up KH by (simp add: algebra_simps)
    then have "round_half_even m K = q" using d by (simp add: rhe_low)
    moreover have "round_half_even a b = q" using low by (simp add: rhe_low q_def r_def)
    ultimately show ?thesis by simp
  next
    case high
    then have "b + 1 \<le> 2 * r" by simp
    then have "(b + 1) * K \<le> 2 * r * K" using Kpos by (simp add: mult_right_mono)
    then have rk: "b * K + b < 2 * (r * K)" using bK by (simp add: algebra_simps)
    have "(2 * (q * K + H) + 1) * b < 2 * (a * K)"
      using aK rk KH by (simp add: algebra_simps)
    from rhe_lower [OF b this] have lo: "q * K + H + 1 \<le> m" by (simp add: m_def)
    have "r * K \<le> b * K" using r Kpos by (simp add: mult_right_mono)
    with aK have "a * K \<le> ((q + 1) * K) * b" by (simp add: algebra_simps)
    from rhe_le [OF b this] have up: "m \<le> (q + 1) * K" by (simp add: m_def)
    have ab1: "round_half_even a b = q + 1" using high by (simp add: rhe_high q_def r_def)
    show ?thesis
    proof (cases "m = (q + 1) * K")
      case True
      then have "m div K = q + 1" "m mod K = 0" using Kpos by simp_all
      then have "round_half_even m K = q + 1" using Kpos by (simp add: rhe_low)
      with ab1 show ?thesis by simp
    next
      case False
      with up have "m < (q + 1) * K" by simp
      then have "K * q \<le> m" "m < K * q + K" using lo Hpos KH by (simp_all add: algebra_simps)
      from div_mod_between [OF this] have d: "m div K = q" "m mod K = m - K * q" .
      have "K < 2 * (m mod K)" using d lo KH by (simp add: algebra_simps)
      then have "round_half_even m K = q + 1" using d by (simp add: rhe_high)
      with ab1 show ?thesis by simp
    qed
  qed
  then show ?thesis by (simp add: m_def K_def)
qed


lemma bitlen_pos: "0 < a \<Longrightarrow> 1 \<le> bitlen a"
  using bitlen_eq_zero_iff [of a] bitlen_nonneg [of a] by linarith

lemma floor_log2_bound:
  fixes N :: nat
  assumes a: "0 < a" "a < 2 ^ N" and b: "0 < b"
  shows "floor_log2 a b \<le> int N - 1" and "b < 2 ^ nat (int N - floor_log2 a b)"
proof -
  define la where "la = bitlen a"
  define lb where "lb = bitlen b"
  have la1: "1 \<le> la" and lb1: "1 \<le> lb" using a b by (simp_all add: la_def lb_def bitlen_pos)
  have ba: "2 ^ nat (la - 1) \<le> a" "a < 2 ^ nat la" using bitlen_bounds [OF a(1)] by (simp_all add: la_def)
  have bb: "2 ^ nat (lb - 1) \<le> b" "b < 2 ^ nat lb" using bitlen_bounds [OF b] by (simp_all add: lb_def)
  have "(2::int) ^ nat (la - 1) < 2 ^ N" using ba(1) a(2) by linarith
  then have "nat (la - 1) < N" by (simp add: power_strict_increasing_iff)
  then have laN: "la \<le> int N" by linarith
  define k0 where "k0 = la - lb"
  have k0N: "k0 \<le> int N - 1" using laN lb1 by (simp add: k0_def)
  have fl: "floor_log2 a b =
      (if (if 0 \<le> k0 then b * 2 ^ nat k0 \<le> a else b \<le> a * 2 ^ nat (- k0)) then k0 else k0 - 1)"
    by (simp add: floor_log2_def Let_def k0_def la_def lb_def)
  show "floor_log2 a b \<le> int N - 1" using fl k0N by (simp split: if_splits)
  show "b < 2 ^ nat (int N - floor_log2 a b)"
  proof (cases "if 0 \<le> k0 then b * 2 ^ nat k0 \<le> a else b \<le> a * 2 ^ nat (- k0)")
    case True
    with fl have e: "floor_log2 a b = k0" by simp
    show ?thesis
    proof (cases "0 \<le> k0")
      case k: True
      with True have "b * 2 ^ nat k0 \<le> a" by simp
      with a(2) have "b * 2 ^ nat k0 < 2 ^ N" by linarith
      also have "N = nat (int N - k0) + nat k0" using k k0N by simp
      then have "(2::int) ^ N = 2 ^ nat (int N - k0) * 2 ^ nat k0"
        by (metis power_add)
      finally have "b < 2 ^ nat (int N - k0)" by simp
      with e show ?thesis by simp
    next
      case k: False
      with True have "b \<le> a * 2 ^ nat (- k0)" by simp
      also have "a * 2 ^ nat (- k0) < 2 ^ N * 2 ^ nat (- k0)" using a(2) by simp
      also have "nat (int N - k0) = N + nat (- k0)" using k by simp
      then have "(2::int) ^ N * 2 ^ nat (- k0) = 2 ^ nat (int N - k0)"
        by (simp add: power_add)
      finally show ?thesis using e by simp
    qed
  next
    case False
    with fl have e: "floor_log2 a b = k0 - 1" by simp
    have "nat lb \<le> nat (int N + 1 - k0)" using laN lb1 by (simp add: k0_def)
    then have "(2::int) ^ nat lb \<le> 2 ^ nat (int N + 1 - k0)" by (simp add: power_increasing)
    with bb(2) have "b < 2 ^ nat (int N + 1 - k0)" by linarith
    moreover have "int N + 1 - k0 = int N - floor_log2 a b" using e by simp
    ultimately show ?thesis by simp
  qed
qed

lemma round_true_div_pos_exact:
  assumes a: "0 < a" "a < 2 ^ 52" and b: "0 < b"
  shows "round_true_div_pos a b = Inr (round_half_even a b)"
proof -
  define p where "p = max (floor_log2 a b - 52) (- 1074)"
  define k where "k = nat (- p)"
  from floor_log2_bound [of a 52 b] assms have e: "floor_log2 a b \<le> 51"
    and be: "b < 2 ^ nat (52 - floor_log2 a b)" by simp_all
  have p0: "p < 0" using e by (simp add: p_def)
  have k1: "1 \<le> k" using p0 by (simp add: k_def)
  have val: "round_true_div_pos a b =
      Inr (round_half_even (round_half_even (a * 2 ^ k) b) (2 ^ k))"
    using p0 by (simp add: round_true_div_pos_def Let_def p_def [symmetric] k_def)
  show ?thesis
  proof (cases "b < 2 ^ k")
    case True
    from double_round [OF _ b k1 True, of a] a(1) val show ?thesis by simp
  next
    case False
    have "k = 1074"
    proof (rule ccontr)
      assume "k \<noteq> 1074"
      then have "p = floor_log2 a b - 52" by (simp add: p_def k_def max_def split: if_splits)
      then have "k = nat (52 - floor_log2 a b)" by (simp add: k_def)
      with be False show False by simp
    qed
    with False have bl: "(2::int) ^ 1074 \<le> b" by simp
    define m where "m = round_half_even (a * 2 ^ 1074) b"
    have "a * 2 ^ 1074 \<le> 2 ^ 52 * 2 ^ 1074" using a by simp
    also have "\<dots> \<le> 2 ^ 52 * b" using bl by simp
    finally have "a * 2 ^ 1074 \<le> 2 ^ 52 * b" .
    from rhe_le [OF b this] have mu: "m \<le> 2 ^ 52" by (simp add: m_def)
    have ml: "0 \<le> m" unfolding m_def using b a by (intro rhe_nonneg) simp_all
    have "(2::int) ^ 53 < 2 ^ 1074" by (simp add: power_strict_increasing_iff)
    with mu have m2: "2 * m < 2 ^ 1074" by simp
    then have "m div 2 ^ 1074 = 0" "m mod 2 ^ 1074 = m" using ml by simp_all
    with m2 have r1: "round_half_even m (2 ^ 1074) = 0" by (simp add: rhe_low)
    have "(2::int) ^ 53 < 2 ^ 1074" by (simp add: power_strict_increasing_iff)
    with a bl have a2: "2 * a < b" by simp
    then have "a div b = 0" "a mod b = a" using a by simp_all
    with a2 have r2: "round_half_even a b = 0" by (simp add: rhe_low)
    from val r1 r2 \<open>k = 1074\<close> show ?thesis by (simp add: m_def)
  qed
qed


lemma round_half_even_nearest:
  assumes "0 < m"
  shows "2 * \<bar>n - m * round_half_even n m\<bar> \<le> m"
    and "2 * \<bar>n - m * round_half_even n m\<bar> = m \<Longrightarrow> even (round_half_even n m)"
proof -
  let ?q = "n div m" and ?r = "n mod m"
  have n: "n - m * ?q = ?r" by (simp add: minus_mult_div_eq_mod)
  have r: "0 \<le> ?r" "?r < m" using assms by simp_all
  consider (low) "2 * ?r < m" | (high) "m < 2 * ?r" | (tie) "2 * ?r = m" by linarith
  then have "2 * \<bar>n - m * round_half_even n m\<bar> \<le> m \<and>
    (2 * \<bar>n - m * round_half_even n m\<bar> = m \<longrightarrow> even (round_half_even n m))"
  proof cases
    case low
    then have "round_half_even n m = ?q" by (rule rhe_low)
    with n r low show ?thesis by simp
  next
    case high
    then have "round_half_even n m = ?q + 1" by (rule rhe_high)
    then have "n - m * round_half_even n m = ?r - m" using n by (simp add: algebra_simps)
    with r high show ?thesis by simp
  next
    case tie
    show ?thesis
    proof (cases "even ?q")
      case True
      with tie have "round_half_even n m = ?q" by (simp add: rhe_tie)
      with n r tie True show ?thesis by simp
    next
      case False
      with tie have e: "round_half_even n m = ?q + 1" by (simp add: rhe_tie)
      then have "n - m * round_half_even n m = ?r - m" using n by (simp add: algebra_simps)
      with r tie False e show ?thesis by simp
    qed
  qed
  then show "2 * \<bar>n - m * round_half_even n m\<bar> \<le> m"
    and "2 * \<bar>n - m * round_half_even n m\<bar> = m \<Longrightarrow> even (round_half_even n m)"
    by simp_all
qed

lemma get_travel_time_small_distance:
  assumes loc: "location d = Some loc" and sp: "0 < speed d"
    and dist: "manhattan_distance loc dest < 2 ^ 52"
  shows "get_travel_time d dest = Inr (round_half_even (manhattan_distance loc dest) (speed d))"
proof -
  let ?a = "manhattan_distance loc dest"
  have a0: "0 \<le> ?a" by (simp add: manhattan_distance_def)
  show ?thesis
  proof (cases "?a = 0")
    case True
    with loc sp show ?thesis
      by (simp add: get_travel_time_def round_true_div_def round_half_even_def)
  next
    case False
    with a0 have pos: "0 < ?a" by simp
    from round_true_div_pos_exact [OF pos dist sp]
    have "round_true_div ?a (speed d) = Inr (round_half_even ?a (speed d))"
      using pos sp by (simp add: round_true_div_def)
    with loc show ?thesis by (simp add: get_travel_time_def)
  qed
qed

lemma round_true_div_2_53_1: "round_true_div 9007199254740993 1 = Inr 9007199254740992"
  by code_simp

lemma round_true_div_2_51_3: "round_true_div 6755399441055746 3 = Inr 2251799813685248"
  by code_simp

lemma round_half_even_2_51_3: "round_half_even 6755399441055746 3 = 2251799813685249"
  by code_simp

section \<open>Driver life cycle\<close>

text \<open>
  Claim C8. For every driver, the invariant "destination is set if and only if the idle
  flag is false" holds after construction and is preserved by each of \<open>start_drive\<close>,
  \<open>end_drive\<close>, \<open>start_ride\<close> and \<open>end_ride\<close>. The target of \<open>start_drive\<close> and
  the rider's destination of \<open>start_ride\<close> are locations by their type, never
  \<open>None\<close>. The two starting methods return whenever the travel time can be computed,
  and every return of theirs satisfies the invariant.
\<close>

theorem driver_invariant_preserved:
  "driver_inv (Driver identifier loc0 spd) \<and>
   (driver_inv d \<longrightarrow>
      (\<forall>loc t. get_travel_time d loc = Inr t \<longrightarrow>
         (\<exists>d'. start_drive d loc = Inr (t, d') \<and> driver_inv d')) \<and>
      (\<forall>loc t d'. start_drive d loc = Inr (t, d') \<longrightarrow> driver_inv d') \<and>
      driver_inv (end_drive d) \<and>
      (\<forall>r t. get_travel_time d (rider_destination r) = Inr t \<longrightarrow>
         (\<exists>d'. start_ride d r = Inr (t, d') \<and> driver_inv d')) \<and>
      (\<forall>r t d'. start_ride d r = Inr (t, d') \<longrightarrow> driver_inv d') \<and>
      driver_inv (end_ride d))"
  by (simp add: start_drive_Inr start_ride_Inr driver_inv_def Driver_def end_drive_def end_ride_def)

text \<open>The invariant and its preservation at a driver at (0,0) with speed 1.\<close>

theorem driver_invariant_preserved_witness:
  "driver_inv (Driver ''Amy'' \<lparr>row = 0, column = 0\<rparr> 1) \<and>
   get_travel_time (Driver ''Amy'' \<lparr>row = 0, column = 0\<rparr> 1) \<lparr>row = 0, column = 3\<rparr> = Inr 3 \<and>
   (\<exists>d'. start_drive (Driver ''Amy'' \<lparr>row = 0, column = 0\<rparr> 1) \<lparr>row = 0, column = 3\<rparr> = Inr (3, d')
      \<and> driver_inv d') \<and>
   driver_inv (end_drive (Driver ''Amy'' \<lparr>row = 0, column = 0\<rparr> 1)) \<and>
   (\<exists>d'. start_ride (Driver ''Amy'' \<lparr>row = 0, column = 0\<rparr> 1)
            (Rider ''Bob'' \<lparr>row = 0, column = 1\<rparr> \<lparr>row = 0, column = 3\<rparr> 5) = Inr (3, d')
      \<and> driver_inv d') \<and>
   driver_inv (end_ride (Driver ''Amy'' \<lparr>row = 0, column = 0\<rparr> 1))"
proof -
  let ?d = "Driver ''Amy'' \<lparr>row = 0, column = 0\<rparr> 1"
  let ?r = "Rider ''Bob'' \<lparr>row = 0, column = 1\<rparr> \<lparr>row = 0, column = 3\<rparr> 5"
  have inv: "driver_inv ?d"
    by (simp add: driver_inv_def Driver_def)
  have tt: "get_travel_time ?d \<lparr>row = 0, column = 3\<rparr> = Inr 3"
    by (simp add: get_travel_time_def Driver_def manhattan_distance_def round_true_div_3_1)
  have tt': "get_travel_time ?d (rider_destination ?r) = Inr 3"
    using tt by (simp add: Rider_def)
  from driver_invariant_preserved [of "''Amy''" "\<lparr>row = 0, column = 0\<rparr>" 1 ?d] inv tt tt'
  show ?thesis by blast
qed

text \<open>
  Claim C7, as stated: calling \<open>end_drive\<close> or \<open>end_ride\<close> when the driver's
  destination is not set aborts the run with an error. It does not: on a freshly
  constructed driver, whose destination is \<open>None\<close>, both calls return normally with
  the location overwritten by \<open>None\<close>, and a \<open>Dropoff\<close> event on such a driver
  completes and emits its \<open>DriverRequest\<close>.
\<close>

theorem end_drive_unset_destination_counterexample:
  "end_drive (Driver ''Amy'' \<lparr>row = 0, column = 0\<rparr> 1) =
     \<lparr>driver_id = ''Amy'', location = None, speed = 1, is_idle = True, destination = None\<rparr> \<and>
   end_ride (Driver ''Amy'' \<lparr>row = 0, column = 0\<rparr> 1) =
     \<lparr>driver_id = ''Amy'', location = None, speed = 1, is_idle = True, destination = None\<rparr> \<and>
   (\<exists>s'. Dropoff_do 4 0 0
      \<lparr>riders = (\<lambda>_. Rider ''Bob'' \<lparr>row = 0, column = 1\<rparr> \<lparr>row = 0, column = 3\<rparr> 5),
       drivers = (\<lambda>_. Driver ''Amy'' \<lparr>row = 0, column = 0\<rparr> 1),
       waiting_list = [], driver_registry = [], monitor = []\<rparr> = Inr ([DriverRequest 4 0], s')
      \<and> location (drivers s' 0) = None \<and> is_idle (drivers s' 0))"
  by (simp add: end_drive_def end_ride_def Driver_def Dropoff_do_def Let_def notify_def)

text \<open>
  Claim C7, amended. \<open>end_drive\<close> and \<open>end_ride\<close> do not check their documented
  precondition: when the destination is not set they return normally, the driver's
  location becomes \<open>None\<close>, the destination stays \<open>None\<close> and the driver is idle.
  No error is raised by the call itself; the next travel-time computation for that
  driver raises \<open>AttributeError\<close>.
\<close>

theorem end_drive_unset_destination:
  "destination d = None \<Longrightarrow>
     end_drive d = d\<lparr>location := None, is_idle := True\<rparr> \<and>
     end_ride d = d\<lparr>location := None, is_idle := True\<rparr> \<and>
     get_travel_time (end_drive d) loc = Inl AttributeError \<and>
     get_travel_time (end_ride d) loc = Inl AttributeError"
  by (simp add: end_drive_def end_ride_def get_travel_time_def)

text \<open>The same at a freshly constructed driver.\<close>

theorem end_drive_unset_destination_witness:
  "destination (Driver ''Amy'' \<lparr>row = 0, column = 0\<rparr> 1) = None \<and>
   end_drive (Driver ''Amy'' \<lparr>row = 0, column = 0\<rparr> 1) =
     (Driver ''Amy'' \<lparr>row = 0, column = 0\<rparr> 1)\<lparr>location := None, is_idle := True\<rparr> \<and>
   get_travel_time (end_drive (Driver ''Amy'' \<lparr>row = 0, column = 0\<rparr> 1)) \<lparr>row = 2, column = 2\<rparr>
     = Inl AttributeError"
proof -
  have h: "destination (Driver ''Amy'' \<lparr>row = 0, column = 0\<rparr> 1) = None"
    by (simp add: Driver_def)
  from end_drive_unset_destination [OF h, of "\<lparr>row = 2, column = 2\<rparr>"] h
  show ?thesis by blast
qed

text \<open>
  Claim C9: \<open>get_travel_time\<close> returns the Manhattan distance divided by the speed,
  rounded to the nearest integer. The code computes \<open>round(distance / self.speed)\<close>
  through a binary64 quotient, which loses the low bits of a large distance: at speed
  1 and distance \<open>2 ^ 53 + 1\<close> it returns \<open>2 ^ 53\<close>, not the distance, and at
  speed 3 and distance \<open>3 * 2 ^ 51 + 2\<close> it returns \<open>2 ^ 51\<close> where the exact
  quotient \<open>2 ^ 51 + 2 / 3\<close> rounds to \<open>2 ^ 51 + 1\<close>. (Below \<open>2 ^ 52\<close> and
  with a positive speed the result is the half-even rounding of the exact quotient:
  \<open>get_travel_time_small_distance\<close>.)
\<close>

theorem get_travel_time_large_distance:
  "manhattan_distance \<lparr>row = 0, column = 0\<rparr> \<lparr>row = 0, column = 9007199254740993\<rparr>
     = 9007199254740993 \<and>
   get_travel_time (Driver ''Amy'' \<lparr>row = 0, column = 0\<rparr> 1)
     \<lparr>row = 0, column = 9007199254740993\<rparr> = Inr 9007199254740992 \<and>
   manhattan_distance \<lparr>row = 0, column = 0\<rparr> \<lparr>row = 0, column = 6755399441055746\<rparr>
     = 6755399441055746 \<and>
   get_travel_time (Driver ''Amy'' \<lparr>row = 0, column = 0\<rparr> 3)
     \<lparr>row = 0, column = 6755399441055746\<rparr> = Inr 2251799813685248 \<and>
   round_half_even 6755399441055746 3 = 2251799813685249"
  by (simp add: get_travel_time_def Driver_def manhattan_distance_def
      round_true_div_2_53_1 round_true_div_2_51_3 round_half_even_2_51_3)

section \<open>Event ordering\<close>




section \<open>Dispatcher\<close>

text \<open>
  Claim C1. \<open>request_driver\<close> returns \<open>None\<close> and appends the rider at the tail of
  the waiting list when the registry is empty or no registered driver is idle.
  Otherwise it returns a registered idle driver \<open>d\<close> and leaves the whole state,
  the waiting list included, unchanged; \<open>d\<close> sits at a position of the registry such
  that every idle driver registered before it has a strictly larger travel time to the
  rider's origin and every idle driver registered after it has a travel time at least as
  large: the smallest travel time, ties going to the driver registered first. The
  hypothesis says that the travel time of every idle registered driver can be
  computed, which is when the call returns at all.
\<close>

theorem request_driver_selects_nearest:
  assumes "\<forall>e\<in>set (driver_registry s). is_idle (drivers s e) \<longrightarrow>
             (\<exists>te. get_travel_time (drivers s e) (origin (riders s r)) = Inr te)"
  shows "if driver_registry s = [] \<or> (\<forall>e\<in>set (driver_registry s). \<not> is_idle (drivers s e))
         then request_driver s r = Inr (None, s\<lparr>waiting_list := waiting_list s @ [r]\<rparr>)
         else (\<exists>pre d post t.
                 request_driver s r = Inr (Some d, s) \<and>
                 driver_registry s = pre @ d # post \<and> is_idle (drivers s d) \<and>
                 get_travel_time (drivers s d) (origin (riders s r)) = Inr t \<and>
                 (\<forall>e\<in>set pre. is_idle (drivers s e) \<longrightarrow>
                    (\<exists>te. get_travel_time (drivers s e) (origin (riders s r)) = Inr te \<and> t < te)) \<and>
                 (\<forall>e\<in>set post. is_idle (drivers s e) \<longrightarrow>
                    (\<exists>te. get_travel_time (drivers s e) (origin (riders s r)) = Inr te \<and> t \<le> te)))"
proof (cases "driver_registry s = [] \<or> (\<forall>e\<in>set (driver_registry s). \<not> is_idle (drivers s e))")
  case True
  then have "\<forall>e\<in>set (driver_registry s). \<not> is_idle (drivers s e)" by auto
  then have "scan_drivers (drivers s) (origin (riders s r)) (driver_registry s) (None, 0) = Inr (None, 0)"
    by (rule scan_drivers_no_idle)
  then have "request_driver s r = Inr (None, s\<lparr>waiting_list := waiting_list s @ [r]\<rparr>)"
    by (simp add: request_driver_def)
  with True show ?thesis by simp
next
  case False
  then have ne: "driver_registry s \<noteq> []" and idle: "\<exists>e\<in>set (driver_registry s). is_idle (drivers s e)"
    by auto
  from scan_drivers_returns [OF assms] obtain res t where
    sc: "scan_drivers (drivers s) (origin (riders s r)) (driver_registry s) (None, 0) = Inr (res, t)"
    by (metis surj_pair)
  from scan_drivers_None [OF sc] idle obtain pre d post where s: "driver_registry s = pre @ d # post"
    "res = Some d" "is_idle (drivers s d)"
    "get_travel_time (drivers s d) (origin (riders s r)) = Inr t"
    "\<forall>e\<in>set pre. is_idle (drivers s e) \<longrightarrow>
       (\<exists>te. get_travel_time (drivers s e) (origin (riders s r)) = Inr te \<and> t < te)"
    "\<forall>e\<in>set post. is_idle (drivers s e) \<longrightarrow>
       (\<exists>te. get_travel_time (drivers s e) (origin (riders s r)) = Inr te \<and> t \<le> te)"
    by blast
  from sc s(2) ne have "request_driver s r = Inr (Some d, s)"
    by (simp add: request_driver_def)
  with s False show ?thesis by auto
qed

text \<open>
  With the first registered driver busy and the next two idle at equal travel time, the
  earlier registered of the two is selected and nobody is put on the waiting list.
\<close>

theorem request_driver_selects_nearest_witness:
  "request_driver queue_state 0 = Inr (Some 1, queue_state) \<and>
   (\<exists>pre d post t.
      request_driver queue_state 0 = Inr (Some d, queue_state) \<and>
      driver_registry queue_state = pre @ d # post \<and> is_idle (drivers queue_state d) \<and>
      get_travel_time (drivers queue_state d) (origin (riders queue_state 0)) = Inr t \<and>
      (\<forall>e\<in>set pre. is_idle (drivers queue_state e) \<longrightarrow>
         (\<exists>te. get_travel_time (drivers queue_state e) (origin (riders queue_state 0)) = Inr te \<and> t < te)) \<and>
      (\<forall>e\<in>set post. is_idle (drivers queue_state e) \<longrightarrow>
         (\<exists>te. get_travel_time (drivers queue_state e) (origin (riders queue_state 0)) = Inr te \<and> t \<le> te)))"
proof -
  have hyp: "\<forall>e\<in>set (driver_registry queue_state). is_idle (drivers queue_state e) \<longrightarrow>
      (\<exists>te. get_travel_time (drivers queue_state e) (origin (riders queue_state 0)) = Inr te)"
    by (simp add: queue_state_fields queue_state_times)
  have idle: "is_idle (drivers queue_state 1)"
    by (simp add: queue_state_fields Driver_def)
  have some: "\<not> (driver_registry queue_state = [] \<or>
      (\<forall>e\<in>set (driver_registry queue_state). \<not> is_idle (drivers queue_state e)))"
    using idle by (simp add: queue_state_fields(1))
  from request_driver_selects_nearest [OF hyp, unfolded if_not_P [OF some]] queue_state_request
  show ?thesis by blast
qed

text \<open>
  Claim C2. The waiting list is a strict FIFO. \<open>request_driver\<close> appends an unmatched
  rider at the tail. \<open>request_rider\<close> on a non-empty waiting list returns its head and
  leaves the tail, and it does return whenever the registry comparisons do. Hence when
  riders \<open>a\<close> then \<open>b\<close> both fail to find a driver, the waiting list is the old one
  followed by \<open>a\<close>, \<open>b\<close>, and the next driver request is served the head of that
  list: with nobody waiting before, it is matched with \<open>a\<close>, and \<open>b\<close> stays waiting.
\<close>

theorem waiting_list_fifo:
  "(request_driver s a = Inr (None, s1) \<longrightarrow> waiting_list s1 = waiting_list s @ [a]) \<and>
   (waiting_list s = x # xs \<and> request_rider s d = Inr (res, s') \<longrightarrow>
      res = Some x \<and> waiting_list s' = xs) \<and>
   (waiting_list s = x # xs \<and>
    (\<forall>e\<in>set (driver_registry s). \<exists>b. driver_eq (drivers s e) (drivers s d) = Inr b) \<longrightarrow>
      (\<exists>s2. request_rider s d = Inr (Some x, s2) \<and> waiting_list s2 = xs)) \<and>
   (request_driver s a = Inr (None, s1) \<and> request_driver s1 b = Inr (None, s2) \<and>
    request_rider s2 d1 = Inr (res1, s3) \<longrightarrow>
      waiting_list s2 = waiting_list s @ [a, b] \<and>
      res1 = Some (hd (waiting_list s @ [a, b])) \<and>
      waiting_list s3 = tl (waiting_list s @ [a, b]) \<and>
      (waiting_list s = [] \<longrightarrow> res1 = Some a \<and> waiting_list s3 = [b]))"
proof (intro conjI impI; (elim conjE)?)
  assume "request_driver s a = Inr (None, s1)"
  from request_driver_None [OF this] show "waiting_list s1 = waiting_list s @ [a]" by simp
next
  assume wl: "waiting_list s = x # xs" and r: "request_rider s d = Inr (res, s')"
  from r show "res = Some x" by (rule request_rider_cases) (simp add: wl)
  from r show "waiting_list s' = xs" by (rule request_rider_cases) (simp add: wl)
next
  assume wl: "waiting_list s = x # xs"
    and "\<forall>e\<in>set (driver_registry s). \<exists>b. driver_eq (drivers s e) (drivers s d) = Inr b"
  from driver_in_returns [OF this(2)] obtain known where
    k: "driver_in (drivers s) d (driver_registry s) = Inr known" by blast
  from request_rider_cons [OF k wl]
  show "\<exists>s2. request_rider s d = Inr (Some x, s2) \<and> waiting_list s2 = xs" by simp
next
  assume a: "request_driver s a = Inr (None, s1)" and b: "request_driver s1 b = Inr (None, s2)"
    and r: "request_rider s2 d1 = Inr (res1, s3)"
  from request_driver_None [OF a] request_driver_None [OF b]
  have wl2: "waiting_list s2 = waiting_list s @ [a, b]" by simp
  then show "waiting_list s2 = waiting_list s @ [a, b]" .
  from r have res1: "res1 = (case waiting_list s2 of [] \<Rightarrow> None | x # xs \<Rightarrow> Some x)"
    and wl3: "waiting_list s3 = tl (waiting_list s2)"
    by (rule request_rider_cases; simp)+
  from res1 wl2 show "res1 = Some (hd (waiting_list s @ [a, b]))"
    by (cases "waiting_list s") simp_all
  from wl3 wl2 show "waiting_list s3 = tl (waiting_list s @ [a, b])" by simp
  show "res1 = Some a" if "waiting_list s = []" using res1 wl2 that by simp
  show "waiting_list s3 = [b]" if "waiting_list s = []" using wl3 wl2 that by simp
qed

text \<open>
  Two riders 0 and 1 are put on the empty waiting list in that order; the next two
  driver requests are served rider 0, then rider 1.
\<close>

theorem waiting_list_fifo_witness:
  "\<exists>s1 s2 s3 s4.
     request_driver two_amys 0 = Inr (None, s1) \<and>
     request_driver s1 1 = Inr (None, s2) \<and>
     waiting_list s2 = [0, 1] \<and>
     request_rider s2 0 = Inr (Some 0, s3) \<and> waiting_list s3 = [1] \<and>
     request_rider s3 0 = Inr (Some 1, s4) \<and> waiting_list s4 = []"
proof -
  let ?s1 = "two_amys\<lparr>waiting_list := waiting_list two_amys @ [0]\<rparr>"
  let ?s2 = "?s1\<lparr>waiting_list := waiting_list ?s1 @ [1]\<rparr>"
  have reg0: "driver_registry two_amys = []" and wl0: "waiting_list two_amys = []"
    by (simp_all add: two_amys_def)
  have a: "request_driver two_amys 0 = Inr (None, ?s1)"
    by (simp add: request_driver_def reg0)
  have b: "request_driver ?s1 1 = Inr (None, ?s2)"
    by (simp add: request_driver_def reg0)
  have noraise: "\<forall>e\<in>set (driver_registry ?s2).
      \<exists>b. driver_eq (drivers ?s2 e) (drivers ?s2 0) = Inr b"
    by (simp add: reg0)
  have wl2: "waiting_list ?s2 = 0 # [1]"
    by (simp add: wl0)
  from waiting_list_fifo [of ?s2 _ _ 0 "[1]" 0] wl2 noraise
  obtain s3 where r3: "request_rider ?s2 0 = Inr (Some 0, s3)" and wl3: "waiting_list s3 = [1]"
    by blast
  from r3 have reg3: "driver_registry s3 = [0]"
    by (rule request_rider_cases) (simp add: reg0)
  have noraise3: "\<forall>e\<in>set (driver_registry s3).
      \<exists>b. driver_eq (drivers s3 e) (drivers s3 0) = Inr b"
    using driver_eq_refl [of "drivers s3 0"] by (auto simp: reg3)
  from waiting_list_fifo [of s3 _ _ 1 "[]" 0] wl3 noraise3
  obtain s4 where r4: "request_rider s3 0 = Inr (Some 1, s4)" and wl4: "waiting_list s4 = []"
    by blast
  from waiting_list_fifo [of two_amys 0 ?s1 _ _ _ _ _ 1 ?s2 0 "Some 0" s3] a b r3 wl0
  have "waiting_list ?s2 = [0, 1]" by simp
  with a b r3 wl3 r4 wl4 show ?thesis by blast
qed




section \<open>Events\<close>

text \<open>
  Claim C3. For every \<open>RiderRequest\<close> event at time \<open>t\<close> with rider \<open>r\<close>,
  executing it emits exactly one \<open>Cancellation\<close> event, for \<open>r\<close> at
  \<open>t + r.patience\<close>, whether or not a driver was matched, and it emits a \<open>Pickup\<close>
  event, at \<open>t\<close> plus the driver's travel time to the rider's origin, exactly when
  the dispatcher returned a driver. The event returns whenever the dispatcher's
  \<open>request_driver\<close> does, and only then.
\<close>

theorem rider_request_emits:
  "(request_driver s r = Inr (res, s1) \<longrightarrow>
      (\<exists>evs s'. RiderRequest_do t r s = Inr (evs, s') \<and>
         filter is_Cancellation evs = [Cancellation (t + patience (riders s r)) r] \<and>
         (case res of
            None \<Rightarrow> filter is_Pickup evs = [] \<and>
                    evs = [Cancellation (t + patience (riders s r)) r]
          | Some d \<Rightarrow>
              (\<exists>travel_time.
                 get_travel_time (drivers s d) (origin (riders s r)) = Inr travel_time \<and>
                 filter is_Pickup evs = [Pickup (t + travel_time) r d] \<and>
                 evs = [Pickup (t + travel_time) r d,
                        Cancellation (t + patience (riders s r)) r])))) \<and>
   (RiderRequest_do t r s = Inr (evs0, s0) \<longrightarrow> (\<exists>res0 s2. request_driver s r = Inr (res0, s2)))"
proof (intro conjI impI)
  assume a: "request_driver s r = Inr (res, s1)"
  let ?n = "(t, RIDER, REQUEST, rider_id (riders s r), Some (origin (riders s r)))"
  from request_driver_notify [OF a, of ?n]
  have rd: "request_driver (notify s ?n) r = Inr (res, notify s1 ?n)" .
  have riders1: "riders s1 = riders s"
    using a by (rule request_driver_riders)
  show "\<exists>evs s'. RiderRequest_do t r s = Inr (evs, s') \<and>
         filter is_Cancellation evs = [Cancellation (t + patience (riders s r)) r] \<and>
         (case res of
            None \<Rightarrow> filter is_Pickup evs = [] \<and>
                    evs = [Cancellation (t + patience (riders s r)) r]
          | Some d \<Rightarrow>
              (\<exists>travel_time.
                 get_travel_time (drivers s d) (origin (riders s r)) = Inr travel_time \<and>
                 filter is_Pickup evs = [Pickup (t + travel_time) r d] \<and>
                 evs = [Pickup (t + travel_time) r d,
                        Cancellation (t + patience (riders s r)) r]))"
  proof (cases res)
    case None
    with rd riders1 show ?thesis
      by (simp add: RiderRequest_do_def)
  next
    case (Some d)
    with a request_driver_Some [of s r d s1] obtain travel_time where
      s1: "s1 = s" and tt: "get_travel_time (drivers s d) (origin (riders s r)) = Inr travel_time"
      by auto
    have "start_drive (drivers s d) (origin (riders s r)) =
        Inr (travel_time, (drivers s d)\<lparr>is_idle := False, destination := Some (origin (riders s r))\<rparr>)"
      using tt by (simp add: start_drive_Inr)
    with rd Some s1 tt show ?thesis
      by (simp add: RiderRequest_do_def)
  qed
next
  assume d: "RiderRequest_do t r s = Inr (evs0, s0)"
  show "\<exists>res0 s2. request_driver s r = Inr (res0, s2)"
  proof (cases "request_driver s r")
    case (Inl e)
    from request_driver_notify_Inl [OF this] d show ?thesis
      by (simp add: RiderRequest_do_def)
  next
    case (Inr p)
    then show ?thesis by (cases p) simp
  qed
qed

text \<open>
  A request at time 5 with patience 20: matched with driver 1, three units away, in the
  state with idle drivers, and unmatched in the state with an empty registry.
\<close>

theorem rider_request_emits_witness:
  "(\<exists>s'. RiderRequest_do 5 0 queue_state =
       Inr ([Pickup 8 0 1, Cancellation 25 0], s')) \<and>
   (\<exists>s'. RiderRequest_do 5 0 two_amys = Inr ([Cancellation 25 0], s')) \<and>
   (\<exists>res0 s2. request_driver queue_state 0 = Inr (res0, s2))"
proof -
  have p: "patience (riders queue_state 0) = 20" "patience (riders two_amys 0) = 20"
    by (simp_all add: queue_state_def two_amys_def Rider_def)
  have tt: "get_travel_time (drivers queue_state 1) (origin (riders queue_state 0)) = Inr 3"
    by (simp add: queue_state_fields queue_state_times)
  have none: "request_driver two_amys 0 = Inr (None, two_amys\<lparr>waiting_list := waiting_list two_amys @ [0]\<rparr>)"
    by (simp add: request_driver_def two_amys_def)
  from rider_request_emits [of queue_state 0 "Some 1" queue_state 5] queue_state_request tt p
  have a: "\<exists>s'. RiderRequest_do 5 0 queue_state = Inr ([Pickup 8 0 1, Cancellation 25 0], s')"
    by auto
  from rider_request_emits [of two_amys 0 None _ 5] none p
  have b: "\<exists>s'. RiderRequest_do 5 0 two_amys = Inr ([Cancellation 25 0], s')"
    by auto
  from a obtain s' where
    "RiderRequest_do 5 0 queue_state = Inr ([Pickup 8 0 1, Cancellation 25 0], s')" ..
  with rider_request_emits [of queue_state 0 _ _ 5 "[Pickup 8 0 1, Cancellation 25 0]" s']
  have c: "\<exists>res0 s2. request_driver queue_state 0 = Inr (res0, s2)" by blast
  from a b c show ?thesis by blast
qed

text \<open>
  Claim C4. Rider status transitions are monotonic across all event executions: a rider
  starts \<open>WAITING\<close>, and an event leaves each rider's status as it was or moves it
  from \<open>WAITING\<close> to \<open>CANCELLED\<close> or \<open>SATISFIED\<close>. A \<open>Cancellation\<close> of a
  satisfied rider returns the state unchanged (status and waiting list included) and
  emits nothing; a \<open>Pickup\<close> of a cancelled rider leaves the rider cancelled.
\<close>

theorem rider_status_monotonic:
  "status (Rider i orig dest pat) = WAITING \<and>
   (event_do e s = Inr (evs, s') \<longrightarrow>
      status (riders s' x) = status (riders s x) \<or>
      (status (riders s x) = WAITING \<and>
       (status (riders s' x) = CANCELLED \<or> status (riders s' x) = SATISFIED))) \<and>
   (status (riders s r) = SATISFIED \<longrightarrow> event_do (Cancellation t r) s = Inr ([], s)) \<and>
   (status (riders s r) = CANCELLED \<longrightarrow>
      (\<exists>s1. event_do (Pickup t r d) s = Inr ([DriverRequest t d], s1) \<and>
            status (riders s1 r) = CANCELLED \<and> riders s1 = riders s \<and>
            waiting_list s1 = waiting_list s))"
  using event_do_status [of e s evs s' x]
  by (simp add: Rider_def Cancellation_do_satisfied Pickup_do_cancelled)

text \<open>
  A waiting rider is cancelled, cancelled again, and then reached by a stale pickup; a
  satisfied rider receives a stale cancellation.
\<close>

theorem rider_status_monotonic_witness:
  "\<exists>s1 s2.
     status (riders (two_amys\<lparr>waiting_list := [0]\<rparr>) 0) = WAITING \<and>
     event_do (Cancellation 25 0) (two_amys\<lparr>waiting_list := [0]\<rparr>) = Inr ([], s1) \<and>
     status (riders s1 0) = CANCELLED \<and>
     event_do (Cancellation 30 0) s1 = Inr ([], s2) \<and> status (riders s2 0) = CANCELLED \<and>
     (\<exists>s3. event_do (Pickup 9 0 0) s1 = Inr ([DriverRequest 9 0], s3) \<and>
           status (riders s3 0) = CANCELLED) \<and>
     event_do (Cancellation 30 1)
       (two_amys\<lparr>riders := (riders two_amys)(1 := (riders two_amys 1)\<lparr>status := SATISFIED\<rparr>)\<rparr>)
       = Inr ([], two_amys\<lparr>riders := (riders two_amys)(1 := (riders two_amys 1)\<lparr>status := SATISFIED\<rparr>)\<rparr>)"
proof -
  let ?s = "two_amys\<lparr>waiting_list := [0]\<rparr>"
  let ?sat = "two_amys\<lparr>riders := (riders two_amys)(1 := (riders two_amys 1)\<lparr>status := SATISFIED\<rparr>)\<rparr>"
  have w: "status (riders ?s 0) = WAITING"
    by (simp add: two_amys_riders Rider_def)
  then have "status (riders ?s 0) \<noteq> SATISFIED" by simp
  from Cancellation_do_other [OF this, of 25] obtain s1 where
    c1: "event_do (Cancellation 25 0) ?s = Inr ([], s1)" and
    r1: "riders s1 = (riders ?s)(0 := (riders ?s 0)\<lparr>status := CANCELLED\<rparr>)"
    by auto
  have st1: "status (riders s1 0) = CANCELLED" using r1 by simp
  then have "status (riders s1 0) \<noteq> SATISFIED" by simp
  from Cancellation_do_other [OF this, of 30] obtain s2 where
    c2: "event_do (Cancellation 30 0) s1 = Inr ([], s2)"
    by auto
  from rider_status_monotonic [of _ _ _ _ "Cancellation 30 0" s1 "[]" s2 0 0 30 0] c2 st1
  have st2: "status (riders s2 0) = CANCELLED" by auto
  from rider_status_monotonic [of _ _ _ _ "Cancellation 30 0" s1 "[]" s2 0 0 9 0] st1
  have p: "\<exists>s3. event_do (Pickup 9 0 0) s1 = Inr ([DriverRequest 9 0], s3) \<and>
           status (riders s3 0) = CANCELLED" by blast
  have sat: "status (riders ?sat 1) = SATISFIED" by simp
  from rider_status_monotonic [of _ _ _ _ _ ?sat _ _ _ 1 30] sat
  have c: "event_do (Cancellation 30 1) ?sat = Inr ([], ?sat)" by blast
  from w c1 st1 c2 st2 p c show ?thesis by blast
qed

text \<open>
  Claim C10, as stated: for every rider, running \<open>Cancellation.do\<close> a second time
  leaves the waiting list exactly as it was after the first execution.
  \<open>request_driver\<close> appends without a membership test and \<open>list.remove\<close>
  deletes one occurrence: two requests of the same rider with no driver registered put
  the rider on the waiting list twice, the first cancellation leaves one occurrence and
  the second removes it.
\<close>

theorem cancellation_duplicate_counterexample:
  "\<exists>s1 s2 s3 s4.
     RiderRequest_do 0 0 two_amys = Inr ([Cancellation 20 0], s1) \<and>
     RiderRequest_do 1 0 s1 = Inr ([Cancellation 21 0], s2) \<and>
     waiting_list s2 = [0, 0] \<and>
     Cancellation_do 20 0 s2 = Inr ([], s3) \<and> waiting_list s3 = [0] \<and>
     Cancellation_do 21 0 s3 = Inr ([], s4) \<and> waiting_list s4 = [] \<and>
     waiting_list s4 \<noteq> waiting_list s3"
proof -
  let ?n1 = "(0, RIDER, REQUEST, rider_id (riders two_amys 0), Some (origin (riders two_amys 0)))"
  let ?s1 = "notify two_amys ?n1\<lparr>waiting_list := waiting_list (notify two_amys ?n1) @ [0]\<rparr>"
  let ?n2 = "(1, RIDER, REQUEST, rider_id (riders ?s1 0), Some (origin (riders ?s1 0)))"
  let ?s2 = "notify ?s1 ?n2\<lparr>waiting_list := waiting_list (notify ?s1 ?n2) @ [0]\<rparr>"
  have reg0: "driver_registry two_amys = []" and wl0: "waiting_list two_amys = []"
    by (simp_all add: two_amys_def)
  have pat: "patience (riders two_amys 0) = 20"
    by (simp add: two_amys_riders Rider_def)
  have st: "status (riders two_amys 0) = WAITING"
    by (simp add: two_amys_riders Rider_def)
  have rd1: "request_driver (notify two_amys ?n1) 0 = Inr (None, ?s1)"
    by (simp add: request_driver_def reg0)
  have r1: "RiderRequest_do 0 0 two_amys = Inr ([Cancellation 20 0], ?s1)"
    using rd1 pat by (simp add: RiderRequest_do_def)
  have rd2: "request_driver (notify ?s1 ?n2) 0 = Inr (None, ?s2)"
    by (simp add: request_driver_def reg0)
  have r2: "RiderRequest_do 1 0 ?s1 = Inr ([Cancellation 21 0], ?s2)"
    using rd2 pat by (simp add: RiderRequest_do_def)
  have wl2: "waiting_list ?s2 = [0, 0]" by (simp add: wl0)
  have ns2: "status (riders ?s2 0) \<noteq> SATISFIED" using st by simp
  from Cancellation_do_other [OF ns2, of 20] obtain s3 where
    c3: "Cancellation_do 20 0 ?s2 = Inr ([], s3)"
    and rid3: "riders s3 = (riders ?s2)(0 := (riders ?s2 0)\<lparr>status := CANCELLED\<rparr>)"
    and w3: "waiting_list s3 = remove1 0 (waiting_list ?s2)"
    by blast
  have wl3: "waiting_list s3 = [0]" using w3 wl2 by simp
  have ns3: "status (riders s3 0) \<noteq> SATISFIED" using rid3 by simp
  from Cancellation_do_other [OF ns3, of 21] obtain s4 where
    c4: "Cancellation_do 21 0 s3 = Inr ([], s4)"
    and w4: "waiting_list s4 = remove1 0 (waiting_list s3)"
    by blast
  have wl4: "waiting_list s4 = []" using w4 wl3 by simp
  have "waiting_list s4 \<noteq> waiting_list s3" using wl3 wl4 by simp
  with r1 r2 wl2 c3 wl3 c4 wl4 show ?thesis by blast
qed

text \<open>
  Claim C10, amended. Executing a \<open>Cancellation\<close> event twice for the same rider
  emits no events either time, and the second execution leaves the riders (so the
  rider's status, \<open>CANCELLED\<close> unless the rider was satisfied), the drivers and the
  registry exactly as they were after the first. It leaves the waiting list as it was
  after the first when the rider was satisfied or occurred at most once in the waiting
  list; each execution on an unsatisfied rider removes one occurrence of the rider.
  (The monitor is notified at each execution on an unsatisfied rider.)
\<close>

theorem cancellation_idempotent:
  "\<exists>s1 s2. Cancellation_do t r s = Inr ([], s1) \<and>
     Cancellation_do t' r s1 = Inr ([], s2) \<and>
     riders s2 = riders s1 \<and> drivers s2 = drivers s1 \<and>
     driver_registry s2 = driver_registry s1 \<and>
     status (riders s2 r) = status (riders s1 r) \<and>
     status (riders s1 r) = (if status (riders s r) = SATISFIED then SATISFIED else CANCELLED) \<and>
     (status (riders s r) = SATISFIED \<or> count_list (waiting_list s) r \<le> 1 \<longrightarrow>
        waiting_list s2 = waiting_list s1) \<and>
     (status (riders s r) \<noteq> SATISFIED \<longrightarrow>
        waiting_list s1 = remove1 r (waiting_list s) \<and>
        waiting_list s2 = remove1 r (waiting_list s1) \<and>
        (count_list (waiting_list s) r \<le> 1 \<longrightarrow> r \<notin> set (waiting_list s1)))"
proof (cases "status (riders s r) = SATISFIED")
  case True
  then have "Cancellation_do t r s = Inr ([], s)" "Cancellation_do t' r s = Inr ([], s)"
    by (simp_all add: Cancellation_do_satisfied)
  with True show ?thesis by simp
next
  case False
  from Cancellation_do_other [OF False, of t] obtain s1 where
    s1: "Cancellation_do t r s = Inr ([], s1)"
      "riders s1 = (riders s)(r := (riders s r)\<lparr>status := CANCELLED\<rparr>)"
      "waiting_list s1 = remove1 r (waiting_list s)"
      "drivers s1 = drivers s" "driver_registry s1 = driver_registry s"
    by blast
  have ns: "status (riders s1 r) \<noteq> SATISFIED"
    using s1(2) by simp
  from Cancellation_do_other [OF ns, of t'] obtain s2 where
    s2: "Cancellation_do t' r s1 = Inr ([], s2)"
      "riders s2 = (riders s1)(r := (riders s1 r)\<lparr>status := CANCELLED\<rparr>)"
      "waiting_list s2 = remove1 r (waiting_list s1)"
      "drivers s2 = drivers s1" "driver_registry s2 = driver_registry s1"
    by blast
  have rid: "riders s2 = riders s1"
    using s2(2) s1(2) by simp
  have st1: "status (riders s1 r) = CANCELLED"
    using s1(2) by simp
  have notin: "r \<notin> set (waiting_list s1)" if "count_list (waiting_list s) r \<le> 1"
    using that s1(3) by (simp add: remove1_count_le_1)
  have same: "waiting_list s2 = waiting_list s1" if "count_list (waiting_list s) r \<le> 1"
    using s2(3) notin [OF that] by (simp add: remove1_idem)
  from s1(1) s2(1) rid s2(4,5) st1 False same s1(3) s2(3) notin
  show ?thesis by auto
qed

text \<open>Rider 0 waits with rider 1 and is cancelled twice at time 25.\<close>

theorem cancellation_idempotent_witness:
  "\<exists>s1 s2. Cancellation_do 25 0 (two_amys\<lparr>waiting_list := [0, 1]\<rparr>) = Inr ([], s1) \<and>
     Cancellation_do 25 0 s1 = Inr ([], s2) \<and>
     riders s2 = riders s1 \<and> waiting_list s2 = waiting_list s1 \<and>
     status (riders s1 0) = CANCELLED \<and> waiting_list s1 = [1]"
proof -
  let ?s = "two_amys\<lparr>waiting_list := [0, 1]\<rparr>"
  have c: "count_list (waiting_list ?s) 0 \<le> 1" by simp
  have w: "status (riders ?s 0) \<noteq> SATISFIED"
    by (simp add: two_amys_riders Rider_def)
  from cancellation_idempotent [of 25 0 ?s 25] c w
  show ?thesis by auto
qed

end
